theory Spec2Isabelle
  imports Complex_Main
begin

section \<open>Values of the notebook\<close>

text \<open>
  The development embeds the code cells of \<^verbatim>\<open>2_Direct_Collocation.ipynb\<close>: the
  trapezoidal block-move transcription, the Hermite-Simpson block-move transcription and
  the cart-pole transcription. Each cell sequence becomes a function of the parameters the
  notebook sets at the top of the cell (\<open>tf\<close>, \<open>N\<close>, and for the cart-pole the boundary
  states), returning what the cell leaves behind: the decision variables, the time grid and
  the \<open>opti\<close> object with its constraints and objective.

  Python floats are read as real numbers and Python integers that count things as natural
  numbers; the time grid, the one computation where a claim turns on the rounding of the
  floats, is given in double arithmetic as well. Every place where the Python raises is a
  branch that returns \<open>Inl\<close>. The calls
  that follow the assembly (\<^verbatim>\<open>opti.set_initial\<close>, \<^verbatim>\<open>opti.solver\<close>, \<^verbatim>\<open>opti.solve\<close> and the
  plots) change neither the variables nor the constraints nor the objective and are not
  part of the model.
\<close>

datatype error = IndexError | ZeroDivisionError | RuntimeError

definition err_bind :: "error + 'a \<Rightarrow> ('a \<Rightarrow> error + 'b) \<Rightarrow> error + 'b" where
  "err_bind m k = (case m of Inl e \<Rightarrow> Inl e | Inr x \<Rightarrow> k x)"

text \<open>Python indexing: a negative index counts from the end, anything else out of range raises.\<close>

definition py_index :: "nat \<Rightarrow> int \<Rightarrow> nat option" where
  "py_index n i =
     (let j = (if i < 0 then int n + i else i)
      in if 0 \<le> j \<and> j < int n then Some (nat j) else None)"

definition setitem :: "'a list \<Rightarrow> int \<Rightarrow> 'a \<Rightarrow> error + 'a list" where
  "setitem xs i v = (case py_index (length xs) i of None \<Rightarrow> Inl IndexError | Some j \<Rightarrow> Inr (xs[j := v]))"

text \<open>Float division by an integer: \<^verbatim>\<open>a/N\<close> raises ZeroDivisionError when \<open>N\<close> is zero.\<close>

definition py_div :: "real \<Rightarrow> real \<Rightarrow> error + real" where
  "py_div a b = (if b = 0 then Inl ZeroDivisionError else Inr (a / b))"

text \<open>
  \<^verbatim>\<open>np.linspace(start, stop, num)\<close>: \<open>num\<close> evenly spaced samples with both end points; the
  last sample is set to \<open>stop\<close> when there is more than one.
\<close>

definition linspace :: "real \<Rightarrow> real \<Rightarrow> nat \<Rightarrow> real list" where
  "linspace start stop num =
     (let d = num - 1;
          delta = stop - start;
          y = map (\<lambda>i. (if 0 < d then real i * (delta / real d) else real i * delta) + start) [0..<num]
      in if 1 < num then y[num - 1 := stop] else y)"








section \<open>Symbolic expressions and the opti stack\<close>

text \<open>
  A CasADi expression is a tree over the entries of the decision variables. \<open>Sym v r c\<close> is
  the entry in row \<open>r\<close> and column \<open>c\<close> of the \<open>v\<close>-th variable that \<^verbatim>\<open>opti.variable\<close> created.
  A matrix of expressions is the list of its columns (CasADi stores matrices column-major).
\<close>

datatype expr =
    Const real
  | Sym nat nat nat
  | Neg expr
  | Add expr expr
  | Sub expr expr
  | Mul expr expr
  | Div expr expr
  | Power expr nat
  | Cos expr
  | Sin expr

type_synonym matrix = "expr list list"

datatype constr = Eq "expr list" "expr list"

record opti =
  variables :: "(nat \<times> nat) list"
  constraints :: "constr list"
  objective :: "expr option"

definition Opti :: opti where
  "Opti = \<lparr>variables = [], constraints = [], objective = None\<rparr>"

definition variable :: "nat \<Rightarrow> nat \<Rightarrow> opti \<Rightarrow> matrix \<times> opti" where
  "variable n m opti =
     (let v = length (variables opti)
      in (map (\<lambda>c. map (\<lambda>r. Sym v r c) [0..<n]) [0..<m],
          opti\<lparr>variables := variables opti @ [(n, m)]\<rparr>))"

definition subject_to :: "constr \<Rightarrow> opti \<Rightarrow> opti" where
  "subject_to c opti = opti\<lparr>constraints := constraints opti @ [c]\<rparr>"

definition minimize :: "expr \<Rightarrow> opti \<Rightarrow> opti" where
  "minimize J opti = opti\<lparr>objective := Some J\<rparr>"

text \<open>\<^verbatim>\<open>X[i]\<close> on a column vector (linear, column-major index) and \<^verbatim>\<open>X[:,j]\<close> (column \<open>j\<close>).\<close>

definition mx_getitem :: "matrix \<Rightarrow> int \<Rightarrow> error + expr" where
  "mx_getitem X i =
     (case py_index (length (concat X)) i of None \<Rightarrow> Inl RuntimeError | Some j \<Rightarrow> Inr (concat X ! j))"

definition mx_col :: "matrix \<Rightarrow> int \<Rightarrow> error + expr list" where
  "mx_col X j = (case py_index (length X) j of None \<Rightarrow> Inl RuntimeError | Some k \<Rightarrow> Inr (X ! k))"

text \<open>
  \<^verbatim>\<open>a == b\<close> on two vectors: one vector equality. A one-entry operand is broadcast to the
  length of the other; operands of any other two lengths are rejected.
\<close>

definition mx_eq :: "expr list \<Rightarrow> expr list \<Rightarrow> error + constr" where
  "mx_eq a b =
     (if length a = length b then Inr (Eq a b)
      else if length b = 1 then Inr (Eq a (replicate (length a) (hd b)))
      else if length a = 1 then Inr (Eq (replicate (length b) (hd a)) b)
      else Inl RuntimeError)"

text \<open>\<^verbatim>\<open>A*B\<close> is the elementwise product and \<^verbatim>\<open>ca.dot(A, B)\<close> the sum of the elementwise products.\<close>

definition mx_times :: "matrix \<Rightarrow> matrix \<Rightarrow> error + matrix" where
  "mx_times A B =
     (if map length A = map length B then Inr (map2 (map2 Mul) A B) else Inl RuntimeError)"

definition sum_products :: "expr list \<Rightarrow> expr list \<Rightarrow> expr" where
  "sum_products xs ys = foldl (\<lambda>acc (a, b). Add acc (Mul a b)) (Const 0) (zip xs ys)"

definition dot :: "matrix \<Rightarrow> matrix \<Rightarrow> error + expr" where
  "dot A B =
     (if map length A = map length B then Inr (sum_products (concat A) (concat B))
      else Inl RuntimeError)"

text \<open>The value of an expression once every variable entry has a number.\<close>

fun eval :: "(nat \<Rightarrow> nat \<Rightarrow> nat \<Rightarrow> real) \<Rightarrow> expr \<Rightarrow> real" where
  "eval a (Const c) = c"
| "eval a (Sym v r c) = a v r c"
| "eval a (Neg e) = - eval a e"
| "eval a (Add e1 e2) = eval a e1 + eval a e2"
| "eval a (Sub e1 e2) = eval a e1 - eval a e2"
| "eval a (Mul e1 e2) = eval a e1 * eval a e2"
| "eval a (Div e1 e2) = eval a e1 / eval a e2"
| "eval a (Power e n) = eval a e ^ n"
| "eval a (Cos e) = cos (eval a e)"
| "eval a (Sin e) = sin (eval a e)"

fun holds :: "(nat \<Rightarrow> nat \<Rightarrow> nat \<Rightarrow> real) \<Rightarrow> constr \<Rightarrow> bool" where
  "holds a (Eq l r) = (map (eval a) l = map (eval a) r)"

definition feasible :: "(nat \<Rightarrow> nat \<Rightarrow> nat \<Rightarrow> real) \<Rightarrow> opti \<Rightarrow> bool" where
  "feasible a opti = list_all (holds a) (constraints opti)"

section \<open>Block move, trapezoidal collocation\<close>

record trapz_problem =
  trapz_X :: matrix
  trapz_V :: matrix
  trapz_U :: matrix
  trapz_t :: "real list"
  trapz_J :: expr
  trapz_opti :: opti

text \<open>The boundary constraints cell.\<close>

definition trapz_boundary :: "nat \<Rightarrow> matrix \<Rightarrow> matrix \<Rightarrow> opti \<Rightarrow> error + opti" where
  "trapz_boundary N X V opti =
     err_bind (mx_getitem X 0) (\<lambda>x0.
     let opti = subject_to (Eq [x0] [Const 0]) opti in
     err_bind (mx_getitem X (int N)) (\<lambda>xN.
     let opti = subject_to (Eq [xN] [Const 1]) opti in
     err_bind (mx_getitem V 0) (\<lambda>v0.
     let opti = subject_to (Eq [v0] [Const 0]) opti in
     err_bind (mx_getitem V (int N)) (\<lambda>vN.
     let opti = subject_to (Eq [vN] [Const 0]) opti in
       Inr opti))))"

text \<open>
  One pass of the loop body for segment \<open>i\<close>: the state is the opti object and the cost
  \<open>J\<close> accumulated so far.
\<close>

definition trapz_body ::
  "real \<Rightarrow> nat \<Rightarrow> matrix \<Rightarrow> matrix \<Rightarrow> matrix \<Rightarrow> nat \<Rightarrow> opti \<times> expr \<Rightarrow> error + opti \<times> expr" where
  "trapz_body tf N X V U i s =
     (let (opti, J) = s in
     err_bind (mx_getitem X (int i)) (\<lambda>x_left.
     err_bind (mx_getitem X (int i + 1)) (\<lambda>x_right.
     err_bind (mx_getitem V (int i)) (\<lambda>v_left.
     err_bind (mx_getitem V (int i + 1)) (\<lambda>v_right.
     err_bind (mx_getitem U (int i)) (\<lambda>u_left.
     err_bind (mx_getitem U (int i + 1)) (\<lambda>u_right.
     err_bind (py_div (0.5 * tf) (real N)) (\<lambda>c.
     let opti = subject_to (Eq [Sub x_right x_left] [Mul (Const c) (Add v_right v_left)]) opti in
     err_bind (py_div (0.5 * tf) (real N)) (\<lambda>c.
     let opti = subject_to (Eq [Sub v_right v_left] [Mul (Const c) (Add u_right u_left)]) opti in
     err_bind (py_div (0.5 * tf) (real N)) (\<lambda>c.
     let J = Add J (Mul (Const c) (Add (Power u_left 2) (Power u_right 2))) in
       Inr (opti, J)))))))))))"

fun trapz_loop ::
  "real \<Rightarrow> nat \<Rightarrow> matrix \<Rightarrow> matrix \<Rightarrow> matrix \<Rightarrow> nat list \<Rightarrow> opti \<times> expr \<Rightarrow> error + opti \<times> expr" where
  "trapz_loop tf N X V U [] s = Inr s"
| "trapz_loop tf N X V U (i # rest) s =
     err_bind (trapz_body tf N X V U i s) (trapz_loop tf N X V U rest)"

definition blockmove_trapz :: "real \<Rightarrow> nat \<Rightarrow> error + trapz_problem" where
  "blockmove_trapz tf N =
     (let opti = Opti;
          (X, opti) = variable (N + 1) 1 opti;
          (V, opti) = variable (N + 1) 1 opti;
          (U, opti) = variable (N + 1) 1 opti;
          t = linspace 0 tf (N + 1)
      in err_bind (trapz_boundary N X V opti) (\<lambda>opti.
         err_bind (trapz_loop tf N X V U [0..<N] (opti, Const 0)) (\<lambda>(opti, J).
           Inr \<lparr>trapz_X = X, trapz_V = V, trapz_U = U, trapz_t = t, trapz_J = J,
                trapz_opti = minimize J opti\<rparr>)))"

section \<open>Block move, Hermite-Simpson collocation\<close>

definition blockmove_nx :: nat where
  "blockmove_nx = 2"

definition blockmove_nu :: nat where
  "blockmove_nu = 1"

text \<open>
  An argument of a call of a CasADi function that expects an \<open>n\<close>-vector: a vector of \<open>n\<close>
  entries is taken as it is, a one-entry argument is repeated \<open>n\<close> times, an empty one is read
  as zeros, and any other length is rejected.
\<close>

definition call_arg :: "nat \<Rightarrow> expr list \<Rightarrow> error + expr list" where
  "call_arg n x =
     (if length x = n then Inr x
      else if length x = 1 then Inr (replicate n (hd x))
      else if x = [] then Inr (replicate n (Const 0))
      else Inl RuntimeError)"

text \<open>
  \<^verbatim>\<open>derive_dynamics\<close> returns the function \<open>f(x, u) = vertcat(x[1], u)\<close> of an \<open>nx\<close>-vector
  and an \<open>nu\<close>-vector.
\<close>

definition blockmove_f :: "expr list \<Rightarrow> expr list \<Rightarrow> error + expr list" where
  "blockmove_f x u =
     err_bind (call_arg blockmove_nx x) (\<lambda>x.
     err_bind (call_arg blockmove_nu u) (\<lambda>u.
       Inr ([x ! 1] @ u)))"

text \<open>
  The Simpson quadrature coefficient vector. The array has the single row \<^verbatim>\<open>simp[0]\<close>, which
  is what the model keeps.
\<close>

definition simp :: "nat \<Rightarrow> error + int list" where
  "simp N =
     err_bind (setitem (map (\<lambda>i. 4 * (int i mod 2) + 2 * ((int i + 1) mod 2)) [0..<2 * N + 1]) 0 1)
       (\<lambda>row. setitem row (- 1) 1)"

definition simp_matrix :: "int list \<Rightarrow> matrix" where
  "simp_matrix row = map (\<lambda>w. [Const (real_of_int w)]) row"

text \<open>\<^verbatim>\<open>J = ca.dot(simp, U[:,:]*U[:,:])\<close>\<close>

definition hs_objective :: "nat \<Rightarrow> matrix \<Rightarrow> error + expr" where
  "hs_objective N U =
     err_bind (simp N) (\<lambda>row.
     err_bind (mx_times U U) (\<lambda>UU.
       dot (simp_matrix row) UU))"

text \<open>
  The names the body of the dynamics-constraints loop binds. The body ends there: the
  interpolation and the collocation constraint are the two \<^verbatim>\<open>TODO\<close> comments of the source.
\<close>

record segment =
  x_left :: "expr list"
  x_mid :: "expr list"
  x_right :: "expr list"
  u_left :: "expr list"
  u_mid :: "expr list"
  u_right :: "expr list"
  f_left :: "expr list"
  f_mid :: "expr list"
  f_right :: "expr list"

definition hs_body ::
  "(expr list \<Rightarrow> expr list \<Rightarrow> error + expr list) \<Rightarrow> matrix \<Rightarrow> matrix \<Rightarrow> int \<Rightarrow> error + segment" where
  "hs_body f X U i =
     err_bind (mx_col X (i - 1)) (\<lambda>xl.
     err_bind (mx_col X i) (\<lambda>xm.
     err_bind (mx_col X (i + 1)) (\<lambda>xr.
     err_bind (mx_col U (i - 1)) (\<lambda>ul.
     err_bind (mx_col U i) (\<lambda>um.
     err_bind (mx_col U (i + 1)) (\<lambda>ur.
     err_bind (f xl ul) (\<lambda>fl.
     err_bind (f xm um) (\<lambda>fm.
     err_bind (f xr ur) (\<lambda>fr.
       Inr \<lparr>x_left = xl, x_mid = xm, x_right = xr,
            u_left = ul, u_mid = um, u_right = ur,
            f_left = fl, f_mid = fm, f_right = fr\<rparr>)))))))))"

text \<open>
  The loop over \<^verbatim>\<open>range(2*N+1)\<close>. Its body changes nothing of the opti object, so the loop
  returns what can be observed of it: the bindings of every pass that ran the body, in
  order, or the error that stopped it.
\<close>

fun hs_loop ::
  "(expr list \<Rightarrow> expr list \<Rightarrow> error + expr list) \<Rightarrow> matrix \<Rightarrow> matrix \<Rightarrow> nat list \<Rightarrow> error + segment list" where
  "hs_loop f X U [] = Inr []"
| "hs_loop f X U (i # rest) =
     (if i mod 2 \<noteq> 0
      then err_bind (hs_body f X U (int i)) (\<lambda>s.
           err_bind (hs_loop f X U rest) (\<lambda>ss. Inr (s # ss)))
      else hs_loop f X U rest)"

record hs_problem =
  hs_X :: matrix
  hs_U :: matrix
  hs_t :: "real list"
  hs_J :: expr
  hs_opti :: opti

definition blockmove_hs :: "real \<Rightarrow> nat \<Rightarrow> error + hs_problem" where
  "blockmove_hs tf N =
     (let opti = Opti;
          (X, opti) = variable blockmove_nx (2 * N + 1) opti;
          (U, opti) = variable blockmove_nu (2 * N + 1) opti;
          t = linspace 0 tf (2 * N + 1);
          f = blockmove_f
      in err_bind (hs_objective N U) (\<lambda>J.
         let opti = minimize J opti in
         err_bind (mx_col X 0) (\<lambda>x0.
         err_bind (mx_eq x0 [Const 0, Const 0]) (\<lambda>c.
         let opti = subject_to c opti in
         err_bind (mx_col X (- 1)) (\<lambda>xN.
         err_bind (mx_eq xN [Const 1, Const 0]) (\<lambda>c.
         let opti = subject_to c opti in
         err_bind (hs_loop f X U [0..<2 * N + 1]) (\<lambda>segments.
           Inr \<lparr>hs_X = X, hs_U = U, hs_t = t, hs_J = J, hs_opti = opti\<rparr>)))))))"

section \<open>Cart-pole swing-up\<close>

definition cartpole_nx :: nat where
  "cartpole_nx = 4"

definition cartpole_nu :: nat where
  "cartpole_nu = 1"

definition m1 :: real where
  "m1 = 1.0"

definition m2 :: real where
  "m2 = 0.3"

definition pole_l :: real where
  "pole_l = 0.5"

definition gravity_g :: real where
  "gravity_g = 9.81"

definition u_max :: real where
  "u_max = 10.0"

definition d_max :: real where
  "d_max = 2.0"

text \<open>
  The pole length \<open>l\<close> and the gravity \<open>g\<close> of the source are \<open>pole_l\<close> and \<open>gravity_g\<close> here.
  Small dense matrices of the dynamics derivation are lists of rows. \<^verbatim>\<open>ca.solve(M, b)\<close> is
  the library's linear solve; for the 2-by-2 system of the cart-pole the model returns the
  closed form of the solution, which has the value of \<open>M\<^sup>-\<^sup>1 b\<close> wherever \<open>M\<close> is regular.
\<close>

definition mat_neg :: "expr list list \<Rightarrow> expr list list" where
  "mat_neg A = map (map Neg) A"

definition mat_vec :: "expr list list \<Rightarrow> expr list \<Rightarrow> expr list" where
  "mat_vec A x = map (\<lambda>row. sum_products row x) A"

definition vec_add :: "expr list \<Rightarrow> expr list \<Rightarrow> expr list" where
  "vec_add x y = map2 Add x y"

fun solve :: "expr list list \<Rightarrow> expr list \<Rightarrow> error + expr list" where
  "solve [[a, b], [c, d]] [p, q] =
     Inr [Div (Sub (Mul d p) (Mul b q)) (Sub (Mul a d) (Mul b c)),
          Div (Sub (Mul a q) (Mul c p)) (Sub (Mul a d) (Mul b c))]"
| "solve M rhs = Inl RuntimeError"

definition cartpole_f :: "expr list \<Rightarrow> expr list \<Rightarrow> error + expr list" where
  "cartpole_f x u =
     err_bind (call_arg cartpole_nx x) (\<lambda>x.
     err_bind (call_arg cartpole_nu u) (\<lambda>u.
        (let M = [[Const (m1 + m2), Mul (Const (m2 * pole_l)) (Cos (x ! 1))],
                  [Mul (Const (m2 * pole_l)) (Cos (x ! 1)), Const (m2 * pole_l ^ 2)]];
             C = [[Const 0.0, Mul (Mul (Const (- m2 * pole_l)) (x ! 3)) (Sin (x ! 1))],
                  [Const 0.0, Const 0.0]];
             tau_g = [Const 0.0, Mul (Const (- m2 * gravity_g * pole_l)) (Sin (x ! 1))];
             B = [[Const 1.0], [Const 0.0]]
         in err_bind (solve M (vec_add (vec_add (mat_vec (mat_neg C) (drop 2 x)) tau_g) (mat_vec B u)))
              (\<lambda>acc. Inr (drop 2 x @ acc)))))"

definition cartpole :: "real \<Rightarrow> nat \<Rightarrow> real list \<Rightarrow> real list \<Rightarrow> error + hs_problem" where
  "cartpole tf N x_init x_final =
     (let opti = Opti;
          (X, opti) = variable cartpole_nx (2 * N + 1) opti;
          (U, opti) = variable cartpole_nu (2 * N + 1) opti;
          t = linspace 0 tf (2 * N + 1);
          f = cartpole_f
      in err_bind (hs_objective N U) (\<lambda>J.
         let opti = minimize J opti in
         err_bind (mx_col X 0) (\<lambda>x0.
         err_bind (mx_eq x0 (map Const x_init)) (\<lambda>c.
         let opti = subject_to c opti in
         err_bind (mx_col X (- 1)) (\<lambda>xN.
         err_bind (mx_eq xN (map Const x_final)) (\<lambda>c.
         let opti = subject_to c opti in
         err_bind (hs_loop f X U [0..<2 * N + 1]) (\<lambda>segments.
           Inr \<lparr>hs_X = X, hs_U = U, hs_t = t, hs_J = J, hs_opti = opti\<rparr>)))))))"

text \<open>The notebook's instance: \<open>tf = 2\<close>, \<open>N = 25\<close> and the swing-up boundary states.\<close>

definition cartpole_swingup :: "error + hs_problem" where
  "cartpole_swingup = cartpole 2.0 25 [0.0, 0.0, 0.0, 0.0] [1.0, pi, 0.0, 0.0]"

section \<open>What the loops build, and sample values\<close>

text \<open>
  The two constraints and the cost term that pass \<open>i\<close> of the trapezoidal loop adds, written
  out on the entries of the variables; the lemmas below show that the loop builds them.
\<close>

definition trapz_colloc :: "real \<Rightarrow> nat \<Rightarrow> matrix \<Rightarrow> matrix \<Rightarrow> matrix \<Rightarrow> nat \<Rightarrow> constr list" where
  "trapz_colloc tf N X V U i =
     [Eq [Sub (concat X ! (i + 1)) (concat X ! i)]
         [Mul (Const (0.5 * tf / real N)) (Add (concat V ! (i + 1)) (concat V ! i))],
      Eq [Sub (concat V ! (i + 1)) (concat V ! i)]
         [Mul (Const (0.5 * tf / real N)) (Add (concat U ! (i + 1)) (concat U ! i))]]"

definition trapz_cost :: "real \<Rightarrow> nat \<Rightarrow> matrix \<Rightarrow> expr \<Rightarrow> nat \<Rightarrow> expr" where
  "trapz_cost tf N U J i =
     Add J (Mul (Const (0.5 * tf / real N)) (Add (Power (concat U ! i) 2) (Power (concat U ! (i + 1)) 2)))"

text \<open>Sample values of the decision variables, for evaluating assembled problems.\<close>

definition all_ones :: "nat \<Rightarrow> nat \<Rightarrow> nat \<Rightarrow> real" where
  "all_ones v r c = 1"

definition overshoot :: "nat \<Rightarrow> nat \<Rightarrow> nat \<Rightarrow> real" where
  "overshoot v r c =
     (if v = 0 then
        (if c = 0 then 0
         else if c = 50 then (if r = 0 then 1 else if r = 1 then pi else 0)
         else if r = 0 then 3 else 0)
      else 11)"

section \<open>Indexing, the grid and the opti operations\<close>

lemma py_index_nat: "i < n \<Longrightarrow> py_index n (int i) = Some i"
  by (simp add: py_index_def)

lemma py_index_Suc: "i + 1 < n \<Longrightarrow> py_index n (int i + 1) = Some (i + 1)"
  by (simp add: py_index_def)

lemma py_index_zero: "0 < n \<Longrightarrow> py_index n 0 = Some 0"
  by (simp add: py_index_def)

lemma py_index_last: "0 < n \<Longrightarrow> py_index n (- 1) = Some (n - 1)"
  by (auto simp add: py_index_def Let_def)

lemma err_bind_Inr [simp]: "err_bind (Inr x) k = k x"
  by (simp add: err_bind_def)

lemma err_bind_Inl [simp]: "err_bind (Inl e) k = Inl e"
  by (simp add: err_bind_def)

lemma mx_getitem_nat: "i < length (concat X) \<Longrightarrow> mx_getitem X (int i) = Inr (concat X ! i)"
  by (simp add: mx_getitem_def py_index_nat)

lemma mx_getitem_Suc: "i + 1 < length (concat X) \<Longrightarrow> mx_getitem X (int i + 1) = Inr (concat X ! (i + 1))"
  by (simp add: mx_getitem_def py_index_Suc)

lemma trapz_body_ok:
  assumes "i < N" "length (concat X) = N + 1" "length (concat V) = N + 1" "length (concat U) = N + 1"
  shows "trapz_body tf N X V U i (opti, J) =
     Inr (opti\<lparr>constraints := constraints opti @ trapz_colloc tf N X V U i\<rparr>, trapz_cost tf N U J i)"
  using assms
  by (simp add: trapz_body_def mx_getitem_nat mx_getitem_Suc py_div_def subject_to_def
      trapz_colloc_def trapz_cost_def)

lemma trapz_loop_ok:
  assumes "\<forall>i\<in>set idx. i < N" "length (concat X) = N + 1" "length (concat V) = N + 1"
    "length (concat U) = N + 1"
  shows "trapz_loop tf N X V U idx (opti, J) =
     Inr (opti\<lparr>constraints := constraints opti @ concat (map (trapz_colloc tf N X V U) idx)\<rparr>,
          foldl (trapz_cost tf N U) J idx)"
  using assms(1)
proof (induction idx arbitrary: opti J)
  case Nil
  then show ?case by simp
next
  case (Cons i rest)
  then have "i < N" and rest: "\<forall>i\<in>set rest. i < N" by simp_all
  show ?case
    by (simp add: trapz_body_ok [OF \<open>i < N\<close> assms(2-4)] Cons.IH [OF rest])
qed

lemma length_linspace: "length (linspace a b n) = n"
  by (simp add: linspace_def Let_def)

lemma linspace_nth:
  assumes "i < n" "1 < n"
  shows "linspace 0 tf n ! i = real i * (tf / real (n - 1))"
proof (cases "i = n - 1")
  case True
  with assms show ?thesis by (simp add: linspace_def Let_def)
next
  case False
  with assms show ?thesis by (simp add: linspace_def Let_def)
qed

lemma linspace_sorted:
  assumes "0 < tf"
  shows "sorted_wrt (<) (linspace 0 tf n)"
proof (cases "1 < n")
  case True
  have "linspace 0 tf n ! i < linspace 0 tf n ! j" if "i < j" "j < n" for i j
  proof -
    have "0 < tf / real (n - 1)" using assms True by simp
    moreover have "real i < real j" using that by simp
    ultimately have "real i * (tf / real (n - 1)) < real j * (tf / real (n - 1))"
      by (rule mult_strict_right_mono [rotated])
    then show ?thesis using that True by (simp only: linspace_nth [of i n] linspace_nth [of j n] order_less_trans [OF that])
  qed
  then show ?thesis by (simp add: sorted_wrt_iff_nth_less length_linspace)
next
  case False
  then have "n = 0 \<or> n = 1" by arith
  then show ?thesis by (auto simp add: linspace_def)
qed

lemma upt_01: "[0..<Suc 0] = [0]"
  by simp

lemma trapz_boundary_ok:
  assumes "length (concat X) = N + 1" "length (concat V) = N + 1"
  shows "trapz_boundary N X V opti =
     Inr (opti\<lparr>constraints := constraints opti @
        [Eq [concat X ! 0] [Const 0], Eq [concat X ! N] [Const 1],
         Eq [concat V ! 0] [Const 0], Eq [concat V ! N] [Const 0]]\<rparr>)"
proof -
  have z: "mx_getitem X 0 = Inr (concat X ! 0)" "mx_getitem V 0 = Inr (concat V ! 0)"
    using assms mx_getitem_nat [of 0 X] mx_getitem_nat [of 0 V] by simp_all
  have l: "mx_getitem X (int N) = Inr (concat X ! N)" "mx_getitem V (int N) = Inr (concat V ! N)"
    using assms by (simp_all add: mx_getitem_nat)
  show ?thesis by (simp add: trapz_boundary_def z l subject_to_def)
qed

lemma blockmove_trapz_result:
  "blockmove_trapz tf N =
     Inr \<lparr>trapz_X = [map (\<lambda>r. Sym 0 r 0) [0..<N + 1]],
          trapz_V = [map (\<lambda>r. Sym 1 r 0) [0..<N + 1]],
          trapz_U = [map (\<lambda>r. Sym 2 r 0) [0..<N + 1]],
          trapz_t = linspace 0 tf (N + 1),
          trapz_J = foldl (\<lambda>J i. Add J (Mul (Const (0.5 * tf / real N))
                       (Add (Power (Sym 2 i 0) 2) (Power (Sym 2 (i + 1) 0) 2)))) (Const 0) [0..<N],
          trapz_opti =
            \<lparr>variables = [(N + 1, 1), (N + 1, 1), (N + 1, 1)],
             constraints =
               [Eq [Sym 0 0 0] [Const 0], Eq [Sym 0 N 0] [Const 1],
                Eq [Sym 1 0 0] [Const 0], Eq [Sym 1 N 0] [Const 0]] @
               concat (map (\<lambda>i.
                 [Eq [Sub (Sym 0 (i + 1) 0) (Sym 0 i 0)]
                     [Mul (Const (0.5 * tf / real N)) (Add (Sym 1 (i + 1) 0) (Sym 1 i 0))],
                  Eq [Sub (Sym 1 (i + 1) 0) (Sym 1 i 0)]
                     [Mul (Const (0.5 * tf / real N)) (Add (Sym 2 (i + 1) 0) (Sym 2 i 0))]]) [0..<N]),
             objective = Some (foldl (\<lambda>J i. Add J (Mul (Const (0.5 * tf / real N))
                       (Add (Power (Sym 2 i 0) 2) (Power (Sym 2 (i + 1) 0) 2)))) (Const 0) [0..<N])\<rparr>\<rparr>"
  (is "_ = Inr \<lparr>trapz_X = ?X, trapz_V = ?V, trapz_U = ?U, trapz_t = _, trapz_J = ?J, trapz_opti = _\<rparr>")
proof -
  have len: "length (concat ?X) = N + 1" "length (concat ?V) = N + 1" "length (concat ?U) = N + 1"
    by simp_all
  have idx: "\<forall>i\<in>set [0..<N]. i < N" by simp
  have nth0: "concat ?X ! 0 = Sym 0 0 0" "concat ?V ! 0 = Sym 1 0 0"
    and nthN: "concat ?X ! N = Sym 0 N 0" "concat ?V ! N = Sym 1 N 0"
    by (simp_all del: upt_Suc)
  have colloc: "map (trapz_colloc tf N ?X ?V ?U) [0..<N] = map (\<lambda>i.
                 [Eq [Sub (Sym 0 (i + 1) 0) (Sym 0 i 0)]
                     [Mul (Const (0.5 * tf / real N)) (Add (Sym 1 (i + 1) 0) (Sym 1 i 0))],
                  Eq [Sub (Sym 1 (i + 1) 0) (Sym 1 i 0)]
                     [Mul (Const (0.5 * tf / real N)) (Add (Sym 2 (i + 1) 0) (Sym 2 i 0))]]) [0..<N]"
    by (rule map_cong) (simp_all add: trapz_colloc_def nth_append del: upt_Suc)
  have cost: "foldl (trapz_cost tf N ?U) J idx = foldl (\<lambda>J i. Add J (Mul (Const (0.5 * tf / real N))
                       (Add (Power (Sym 2 i 0) 2) (Power (Sym 2 (i + 1) 0) 2)))) J idx"
    if "\<forall>i\<in>set idx. i < N" for J idx
    using that by (induction idx arbitrary: J) (simp_all add: trapz_cost_def nth_append del: upt_Suc)
  have b: "trapz_boundary N ?X ?V opti = Inr (opti\<lparr>constraints := constraints opti @
        [Eq [Sym 0 0 0] [Const 0], Eq [Sym 0 N 0] [Const 1],
         Eq [Sym 1 0 0] [Const 0], Eq [Sym 1 N 0] [Const 0]]\<rparr>)" for opti
    by (simp only: trapz_boundary_ok [OF len(1,2)] nth0 nthN)
  have l: "trapz_loop tf N ?X ?V ?U [0..<N] (opti, J) =
     Inr (opti\<lparr>constraints := constraints opti @ concat (map (\<lambda>i.
                 [Eq [Sub (Sym 0 (i + 1) 0) (Sym 0 i 0)]
                     [Mul (Const (0.5 * tf / real N)) (Add (Sym 1 (i + 1) 0) (Sym 1 i 0))],
                  Eq [Sub (Sym 1 (i + 1) 0) (Sym 1 i 0)]
                     [Mul (Const (0.5 * tf / real N)) (Add (Sym 2 (i + 1) 0) (Sym 2 i 0))]]) [0..<N])\<rparr>,
          foldl (\<lambda>J i. Add J (Mul (Const (0.5 * tf / real N))
                       (Add (Power (Sym 2 i 0) 2) (Power (Sym 2 (i + 1) 0) 2)))) J [0..<N])" for opti J
    by (simp only: trapz_loop_ok [OF idx len] colloc cost [OF idx])
  have v: "variable (N + 1) 1 Opti = (?X, \<lparr>variables = [(N + 1, 1)], constraints = [], objective = None\<rparr>)"
    "variable (N + 1) 1 \<lparr>variables = [(N + 1, 1)], constraints = [], objective = None\<rparr>
      = (?V, \<lparr>variables = [(N + 1, 1), (N + 1, 1)], constraints = [], objective = None\<rparr>)"
    "variable (N + 1) 1 \<lparr>variables = [(N + 1, 1), (N + 1, 1)], constraints = [], objective = None\<rparr>
      = (?U, \<lparr>variables = [(N + 1, 1), (N + 1, 1), (N + 1, 1)], constraints = [], objective = None\<rparr>)"
    by (simp_all add: variable_def Opti_def upt_01 numeral_2_eq_2 del: upt_Suc)
  show ?thesis
    unfolding blockmove_trapz_def Let_def v split_conv b l err_bind_Inr
    by (simp add: minimize_def)
qed

section \<open>The Simpson weights and the objective\<close>

lemma simp_coeff: "4 * (int i mod 2) + 2 * ((int i + 1) mod 2) = (if odd i then 4 else 2)"
proof (cases "odd i")
  case True
  then have "int i mod 2 = 1" "(int i + 1) mod 2 = 0" by presburger+
  with True show ?thesis by simp
next
  case False
  then have "int i mod 2 = 0" "(int i + 1) mod 2 = 1" by presburger+
  with False show ?thesis by simp
qed

lemma simp_row:
  "simp N = Inr (map (\<lambda>i. if i = 0 \<or> i = 2 * N then 1 else if odd i then 4 else 2) [0..<2 * N + 1])"
proof -
  let ?row = "map (\<lambda>i. 4 * (int i mod 2) + 2 * ((int i + 1) mod 2)) [0..<2 * N + 1]"
  have s1: "setitem ?row 0 1 = Inr (?row[0 := 1])"
    by (simp add: setitem_def py_index_zero del: upt_Suc)
  have s2: "setitem (?row[0 := 1]) (- 1) 1 = Inr (?row[0 := 1, 2 * N := 1])"
    by (simp add: setitem_def py_index_last del: upt_Suc)
  have "?row[0 := 1, 2 * N := 1] =
      map (\<lambda>i. if i = 0 \<or> i = 2 * N then 1 else if odd i then 4 else 2) [0..<2 * N + 1]"
    by (rule nth_equalityI) (auto simp add: nth_list_update simp_coeff simp del: upt_Suc)
  then show ?thesis
    unfolding simp_def s1 err_bind_Inr s2 by simp
qed

lemma eval_sum_products_aux:
  "length xs = length ys \<Longrightarrow>
   eval a (foldl (\<lambda>acc (x, y). Add acc (Mul x y)) e (zip xs ys)) =
     eval a e + (\<Sum>i<length xs. eval a (xs ! i) * eval a (ys ! i))"
proof (induction xs ys arbitrary: e rule: list_induct2)
  case Nil
  then show ?case by simp
next
  case (Cons x xs y ys)
  have "(\<Sum>i<Suc (length xs). eval a ((x # xs) ! i) * eval a ((y # ys) ! i)) =
      eval a x * eval a y + (\<Sum>i<length xs. eval a (xs ! i) * eval a (ys ! i))"
    by (subst sum.lessThan_Suc_shift) simp
  then show ?case by (simp add: Cons.IH)
qed

lemma eval_sum_products:
  "length xs = length ys \<Longrightarrow>
   eval a (sum_products xs ys) = (\<Sum>i<length xs. eval a (xs ! i) * eval a (ys ! i))"
  by (simp add: sum_products_def eval_sum_products_aux)

lemma concat_singletons: "concat (map (\<lambda>x. [f x]) xs) = map f xs"
  by (induction xs) simp_all

lemma hs_objective_ok:
  assumes "\<forall>c\<in>set U. length c = 1"  "length U = 2 * N + 1"
  shows "hs_objective N U = Inr (sum_products
      (map (\<lambda>i. Const (real_of_int (if i = 0 \<or> i = 2 * N then 1 else if odd i then 4 else 2))) [0..<2 * N + 1])
      (map (\<lambda>c. Mul (hd c) (hd c)) U))"
proof -
  have t: "mx_times U U = Inr (map (\<lambda>c. [Mul (hd c) (hd c)]) U)"
  proof -
    have "map2 (map2 Mul) U U = map (\<lambda>c. [Mul (hd c) (hd c)]) U"
      using assms(1)
    proof (induction U)
      case Nil
      then show ?case by simp
    next
      case (Cons c U)
      then have "length c = 1" by simp
      then obtain x where "c = [x]" by (cases c) auto
      with Cons show ?case by simp
    qed
    then show ?thesis by (simp add: mx_times_def)
  qed
  have shape: "map length (simp_matrix (map (\<lambda>i. if i = 0 \<or> i = 2 * N then 1 else if odd i then 4 else 2) [0..<2 * N + 1]))
      = map length (map (\<lambda>c. [Mul (hd c) (hd c)]) U)"
    using assms(2) by (simp add: simp_matrix_def comp_def map_replicate_const del: upt_Suc)
  show ?thesis
    unfolding hs_objective_def simp_row err_bind_Inr t dot_def
    by (simp only: shape if_True) (simp add: simp_matrix_def concat_singletons comp_def concat_map_singleton del: upt_Suc)
qed

section \<open>The Hermite-Simpson loop and the assembled problems\<close>

lemma mx_col_nat: "i < length X \<Longrightarrow> mx_col X (int i) = Inr (X ! i)"
  by (simp add: mx_col_def py_index_nat)

lemma mx_col_pred: "0 < i \<Longrightarrow> i < length X \<Longrightarrow> mx_col X (int i - 1) = Inr (X ! (i - 1))"
  using mx_col_nat [of "i - 1" X] by (simp add: of_nat_diff)

lemma mx_col_succ: "i + 1 < length X \<Longrightarrow> mx_col X (int i + 1) = Inr (X ! (i + 1))"
  by (simp add: mx_col_def py_index_Suc)

lemma mx_col_last: "0 < length X \<Longrightarrow> mx_col X (- 1) = Inr (X ! (length X - 1))"
  by (simp add: mx_col_def py_index_last)

lemma hs_body_ok:
  assumes "odd i" "i + 1 < n" "length X = n" "length U = n"
    and f: "\<forall>j<n. f (X ! j) (U ! j) = Inr (g j)"
  shows "hs_body f X U (int i) =
     Inr \<lparr>x_left = X ! (i - 1), x_mid = X ! i, x_right = X ! (i + 1),
          u_left = U ! (i - 1), u_mid = U ! i, u_right = U ! (i + 1),
          f_left = g (i - 1), f_mid = g i, f_right = g (i + 1)\<rparr>"
proof -
  from assms(1) have pos: "0 < i" by (cases i) simp_all
  have lt: "i < n" "i - 1 < n" using assms(2) by simp_all
  show ?thesis
    using assms(2-4) pos lt
    by (simp add: hs_body_def mx_col_nat mx_col_pred mx_col_succ f)
qed

lemma hs_loop_ok:
  assumes "\<forall>i\<in>set idx. odd i \<longrightarrow> i + 1 < n" "length X = n" "length U = n"
    and f: "\<forall>j<n. f (X ! j) (U ! j) = Inr (g j)"
  shows "hs_loop f X U idx =
     Inr (map (\<lambda>i. \<lparr>x_left = X ! (i - 1), x_mid = X ! i, x_right = X ! (i + 1),
          u_left = U ! (i - 1), u_mid = U ! i, u_right = U ! (i + 1),
          f_left = g (i - 1), f_mid = g i, f_right = g (i + 1)\<rparr>) (filter odd idx))"
  using assms(1)
proof (induction idx)
  case Nil
  then show ?case by simp
next
  case (Cons i rest)
  then have rest: "\<forall>i\<in>set rest. odd i \<longrightarrow> i + 1 < n" by simp
  show ?case
  proof (cases "odd i")
    case True
    with Cons.prems have "i + 1 < n" by simp
    from hs_body_ok [OF True this assms(2,3) f] True Cons.IH [OF rest]
    show ?thesis by (simp add: odd_iff_mod_2_eq_one)
  next
    case False
    with Cons.IH [OF rest] show ?thesis by (simp add: odd_iff_mod_2_eq_one)
  qed
qed

lemma filter_odd_upt: "filter odd [0..<2 * N + 1] = map (\<lambda>k. 2 * k + 1) [0..<N]"
  by (induction N) simp_all

lemma hs_loop_range:
  assumes "length X = 2 * N + 1" "length U = 2 * N + 1"
    and f: "\<forall>j<2 * N + 1. f (X ! j) (U ! j) = Inr (g j)"
  shows "hs_loop f X U [0..<2 * N + 1] =
     Inr (map (\<lambda>k. \<lparr>x_left = X ! (2 * k), x_mid = X ! (2 * k + 1), x_right = X ! (2 * k + 2),
          u_left = U ! (2 * k), u_mid = U ! (2 * k + 1), u_right = U ! (2 * k + 2),
          f_left = g (2 * k), f_mid = g (2 * k + 1), f_right = g (2 * k + 2)\<rparr>) [0..<N])"
proof -
  have idx: "\<forall>i\<in>set [0..<2 * N + 1]. odd i \<longrightarrow> i + 1 < 2 * N + 1"
  proof (intro ballI impI)
    fix i assume "i \<in> set [0..<2 * N + 1]" "odd i"
    then have "i < 2 * N + 1" "i \<noteq> 2 * N" by auto
    then show "i + 1 < 2 * N + 1" by simp
  qed
  show ?thesis
    unfolding hs_loop_ok [OF idx assms(1,2) f] filter_odd_upt
    by (simp add: comp_def)
qed

lemma blockmove_f_ok: "length x = 2 \<Longrightarrow> length u = 1 \<Longrightarrow> blockmove_f x u = Inr ([x ! 1] @ u)"
  by (simp add: blockmove_f_def call_arg_def blockmove_nx_def blockmove_nu_def)

lemma cartpole_f_ok:
  assumes "length x = 4" "length u = 1"
  shows "\<not> isl (cartpole_f x u)"
proof -
  obtain a b c d where x: "x = [a, b, c, d]"
    using assms(1) by (auto simp add: length_Suc_conv numeral_eq_Suc)
  obtain e where u: "u = [e]"
    using assms(2) by (auto simp add: length_Suc_conv)
  show ?thesis
    by (simp add: x u cartpole_f_def call_arg_def cartpole_nx_def cartpole_nu_def Let_def mat_vec_def
        mat_neg_def vec_add_def)
qed

lemma upt_02: "[0..<2] = [0, 1]"
  by (simp add: numeral_2_eq_2)

lemma upt_04: "[0..<4] = [0, 1, 2, 3]"
  by (simp add: numeral_eq_Suc)

lemma blockmove_hs_result:
  "blockmove_hs tf N =
     Inr \<lparr>hs_X = map (\<lambda>c. [Sym 0 0 c, Sym 0 1 c]) [0..<2 * N + 1],
          hs_U = map (\<lambda>c. [Sym 1 0 c]) [0..<2 * N + 1],
          hs_t = linspace 0 tf (2 * N + 1),
          hs_J = sum_products
            (map (\<lambda>i. Const (real_of_int (if i = 0 \<or> i = 2 * N then 1 else if odd i then 4 else 2))) [0..<2 * N + 1])
            (map (\<lambda>c. Mul (Sym 1 0 c) (Sym 1 0 c)) [0..<2 * N + 1]),
          hs_opti =
            \<lparr>variables = [(2, 2 * N + 1), (1, 2 * N + 1)],
             constraints =
               [Eq [Sym 0 0 0, Sym 0 1 0] [Const 0, Const 0],
                Eq [Sym 0 0 (2 * N), Sym 0 1 (2 * N)] [Const 1, Const 0]],
             objective = Some (sum_products
            (map (\<lambda>i. Const (real_of_int (if i = 0 \<or> i = 2 * N then 1 else if odd i then 4 else 2))) [0..<2 * N + 1])
            (map (\<lambda>c. Mul (Sym 1 0 c) (Sym 1 0 c)) [0..<2 * N + 1]))\<rparr>\<rparr>"
  (is "_ = Inr \<lparr>hs_X = ?X, hs_U = ?U, hs_t = _, hs_J = ?J, hs_opti = _\<rparr>")
proof -
  have v: "variable blockmove_nx (2 * N + 1) Opti =
      (?X, \<lparr>variables = [(2, 2 * N + 1)], constraints = [], objective = None\<rparr>)"
    "variable blockmove_nu (2 * N + 1) \<lparr>variables = [(2, 2 * N + 1)], constraints = [], objective = None\<rparr> =
      (?U, \<lparr>variables = [(2, 2 * N + 1), (1, 2 * N + 1)], constraints = [], objective = None\<rparr>)"
    by (simp_all add: variable_def Opti_def blockmove_nx_def blockmove_nu_def upt_01 upt_02
        del: upt_Suc)
  have J: "hs_objective N ?U = Inr ?J"
    by (subst hs_objective_ok) (simp_all add: comp_def del: upt_Suc)
  have c0: "mx_col ?X 0 = Inr [Sym 0 0 0, Sym 0 1 0]"
    using mx_col_nat [of 0 ?X] by (simp del: upt_Suc)
  have cN: "mx_col ?X (- 1) = Inr [Sym 0 0 (2 * N), Sym 0 1 (2 * N)]"
    using mx_col_last [of ?X] by (simp del: upt_Suc)
  have f: "\<forall>j<2 * N + 1. blockmove_f (?X ! j) (?U ! j) = Inr ([Sym 0 1 j, Sym 1 0 j])"
    by (simp add: blockmove_f_ok del: upt_Suc)
  have len: "length ?X = 2 * N + 1" "length ?U = 2 * N + 1" by simp_all
  show ?thesis
    unfolding blockmove_hs_def Let_def v split_conv J err_bind_Inr c0 cN hs_loop_range [OF len f]
    by (simp add: mx_eq_def minimize_def subject_to_def)
qed

lemma cartpole_result:
  assumes "length x_init = 4" "length x_final = 4"
  shows "cartpole tf N x_init x_final =
     Inr \<lparr>hs_X = map (\<lambda>c. [Sym 0 0 c, Sym 0 1 c, Sym 0 2 c, Sym 0 3 c]) [0..<2 * N + 1],
          hs_U = map (\<lambda>c. [Sym 1 0 c]) [0..<2 * N + 1],
          hs_t = linspace 0 tf (2 * N + 1),
          hs_J = sum_products
            (map (\<lambda>i. Const (real_of_int (if i = 0 \<or> i = 2 * N then 1 else if odd i then 4 else 2))) [0..<2 * N + 1])
            (map (\<lambda>c. Mul (Sym 1 0 c) (Sym 1 0 c)) [0..<2 * N + 1]),
          hs_opti =
            \<lparr>variables = [(4, 2 * N + 1), (1, 2 * N + 1)],
             constraints =
               [Eq [Sym 0 0 0, Sym 0 1 0, Sym 0 2 0, Sym 0 3 0] (map Const x_init),
                Eq [Sym 0 0 (2 * N), Sym 0 1 (2 * N), Sym 0 2 (2 * N), Sym 0 3 (2 * N)] (map Const x_final)],
             objective = Some (sum_products
            (map (\<lambda>i. Const (real_of_int (if i = 0 \<or> i = 2 * N then 1 else if odd i then 4 else 2))) [0..<2 * N + 1])
            (map (\<lambda>c. Mul (Sym 1 0 c) (Sym 1 0 c)) [0..<2 * N + 1]))\<rparr>\<rparr>"
  (is "_ = Inr \<lparr>hs_X = ?X, hs_U = ?U, hs_t = _, hs_J = ?J, hs_opti = _\<rparr>")
proof -
  have v: "variable cartpole_nx (2 * N + 1) Opti =
      (?X, \<lparr>variables = [(4, 2 * N + 1)], constraints = [], objective = None\<rparr>)"
    "variable cartpole_nu (2 * N + 1) \<lparr>variables = [(4, 2 * N + 1)], constraints = [], objective = None\<rparr> =
      (?U, \<lparr>variables = [(4, 2 * N + 1), (1, 2 * N + 1)], constraints = [], objective = None\<rparr>)"
    by (simp_all add: variable_def Opti_def cartpole_nx_def cartpole_nu_def upt_01 upt_04
        del: upt_Suc)
  have J: "hs_objective N ?U = Inr ?J"
    by (subst hs_objective_ok) (simp_all add: comp_def del: upt_Suc)
  have c0: "mx_col ?X 0 = Inr [Sym 0 0 0, Sym 0 1 0, Sym 0 2 0, Sym 0 3 0]"
    using mx_col_nat [of 0 ?X] by (simp del: upt_Suc)
  have cN: "mx_col ?X (- 1) = Inr [Sym 0 0 (2 * N), Sym 0 1 (2 * N), Sym 0 2 (2 * N), Sym 0 3 (2 * N)]"
    using mx_col_last [of ?X] by (simp del: upt_Suc)
  have f: "\<forall>j<2 * N + 1. cartpole_f (?X ! j) (?U ! j) = Inr (projr (cartpole_f (?X ! j) (?U ! j)))"
  proof (intro allI impI)
    fix j assume "j < 2 * N + 1"
    then have "\<not> isl (cartpole_f (?X ! j) (?U ! j))"
      by (intro cartpole_f_ok) (simp_all del: upt_Suc)
    then show "cartpole_f (?X ! j) (?U ! j) = Inr (projr (cartpole_f (?X ! j) (?U ! j)))"
      by (cases "cartpole_f (?X ! j) (?U ! j)") simp_all
  qed
  have len: "length ?X = 2 * N + 1" "length ?U = 2 * N + 1" by simp_all
  show ?thesis
    unfolding cartpole_def Let_def v split_conv J err_bind_Inr c0 cN hs_loop_range [OF len f]
    by (simp add: mx_eq_def minimize_def subject_to_def assms)
qed

lemma linspace_ends:
  assumes "1 \<le> N"
  shows "linspace 0 tf (2 * N + 1) ! 0 = 0" "linspace 0 tf (2 * N + 1) ! (2 * N) = tf"
  using linspace_nth [of 0 "2 * N + 1" tf] linspace_nth [of "2 * N" "2 * N + 1" tf] assms
  by simp_all

lemma blockmove_trapz_fields:
  "\<exists>p. blockmove_trapz tf N = Inr p \<and>
     trapz_X p = [map (\<lambda>r. Sym 0 r 0) [0..<N + 1]] \<and>
     trapz_V p = [map (\<lambda>r. Sym 1 r 0) [0..<N + 1]] \<and>
     trapz_U p = [map (\<lambda>r. Sym 2 r 0) [0..<N + 1]] \<and>
     constraints (trapz_opti p) =
       [Eq [Sym 0 0 0] [Const 0], Eq [Sym 0 N 0] [Const 1],
        Eq [Sym 1 0 0] [Const 0], Eq [Sym 1 N 0] [Const 0]] @
       concat (map (\<lambda>i.
         [Eq [Sub (Sym 0 (i + 1) 0) (Sym 0 i 0)]
             [Mul (Const (0.5 * tf / real N)) (Add (Sym 1 (i + 1) 0) (Sym 1 i 0))],
          Eq [Sub (Sym 1 (i + 1) 0) (Sym 1 i 0)]
             [Mul (Const (0.5 * tf / real N)) (Add (Sym 2 (i + 1) 0) (Sym 2 i 0))]]) [0..<N])"
  unfolding blockmove_trapz_result by (simp del: upt_Suc)

lemma blockmove_hs_fields:
  "\<exists>p. blockmove_hs tf N = Inr p \<and>
     hs_X p = map (\<lambda>c. [Sym 0 0 c, Sym 0 1 c]) [0..<2 * N + 1] \<and>
     hs_U p = map (\<lambda>c. [Sym 1 0 c]) [0..<2 * N + 1] \<and>
     hs_J p = sum_products
            (map (\<lambda>i. Const (real_of_int (if i = 0 \<or> i = 2 * N then 1 else if odd i then 4 else 2))) [0..<2 * N + 1])
            (map (\<lambda>c. Mul (Sym 1 0 c) (Sym 1 0 c)) [0..<2 * N + 1]) \<and>
     objective (hs_opti p) = Some (hs_J p) \<and>
     constraints (hs_opti p) =
       [Eq (hs_X p ! 0) [Const 0, Const 0], Eq (hs_X p ! (2 * N)) [Const 1, Const 0]]"
  unfolding blockmove_hs_result by (simp del: upt_Suc)

lemma cartpole_fields:
  assumes "length x_init = 4" "length x_final = 4"
  shows "\<exists>p. cartpole tf N x_init x_final = Inr p \<and>
     hs_X p = map (\<lambda>c. [Sym 0 0 c, Sym 0 1 c, Sym 0 2 c, Sym 0 3 c]) [0..<2 * N + 1] \<and>
     hs_U p = map (\<lambda>c. [Sym 1 0 c]) [0..<2 * N + 1] \<and>
     hs_J p = sum_products
            (map (\<lambda>i. Const (real_of_int (if i = 0 \<or> i = 2 * N then 1 else if odd i then 4 else 2))) [0..<2 * N + 1])
            (map (\<lambda>c. Mul (Sym 1 0 c) (Sym 1 0 c)) [0..<2 * N + 1]) \<and>
     objective (hs_opti p) = Some (hs_J p) \<and>
     constraints (hs_opti p) =
       [Eq (hs_X p ! 0) (map Const x_init), Eq (hs_X p ! (2 * N)) (map Const x_final)]"
  unfolding cartpole_result [OF assms] by (simp del: upt_Suc)

lemma hs_loop_segments:
  assumes "length X = 2 * N + 1" "length U = 2 * N + 1"
    and f: "\<forall>j<2 * N + 1. \<not> isl (f (X ! j) (U ! j))"
  shows "\<exists>segs. hs_loop f X U [0..<2 * N + 1] = Inr segs \<and> length segs = N \<and>
     (\<forall>k<N. 2 * k + 2 < length X \<and> 2 * k + 2 < length U \<and>
        x_left (segs ! k) = X ! (2 * k) \<and> x_mid (segs ! k) = X ! (2 * k + 1) \<and>
        x_right (segs ! k) = X ! (2 * k + 2) \<and>
        u_left (segs ! k) = U ! (2 * k) \<and> u_mid (segs ! k) = U ! (2 * k + 1) \<and>
        u_right (segs ! k) = U ! (2 * k + 2))"
proof -
  have g: "\<forall>j<2 * N + 1. f (X ! j) (U ! j) = Inr (projr (f (X ! j) (U ! j)))"
  proof (intro allI impI)
    fix j assume "j < 2 * N + 1"
    with f have "\<not> isl (f (X ! j) (U ! j))" by simp
    then show "f (X ! j) (U ! j) = Inr (projr (f (X ! j) (U ! j)))"
      by (cases "f (X ! j) (U ! j)") simp_all
  qed
  show ?thesis
    unfolding hs_loop_range [OF assms(1,2) g]
    using assms(1,2) by (simp del: upt_Suc)
qed

lemma feasible_two:
  "constraints opti = [Eq l1 r1, Eq l2 r2] \<Longrightarrow>
   feasible a opti = (map (eval a) l1 = map (eval a) r1 \<and> map (eval a) l2 = map (eval a) r2)"
  by (simp add: feasible_def)

lemma map_eval_Const: "map (eval a) (map Const xs) = xs"
  by (induction xs) simp_all

lemma hs_loop_builder:
  "\<exists>p segs. blockmove_hs tf N = Inr p \<and>
      hs_loop blockmove_f (hs_X p) (hs_U p) [0..<2 * N + 1] = Inr segs \<and> length segs = N"
proof -
  from blockmove_hs_fields [of tf N] obtain p where p: "blockmove_hs tf N = Inr p"
    and X: "hs_X p = map (\<lambda>c. [Sym 0 0 c, Sym 0 1 c]) [0..<2 * N + 1]"
    and U: "hs_U p = map (\<lambda>c. [Sym 1 0 c]) [0..<2 * N + 1]"
    by blast
  have len: "length (hs_X p) = 2 * N + 1" "length (hs_U p) = 2 * N + 1"
    by (simp_all add: X U)
  have "\<forall>j<2 * N + 1. \<not> isl (blockmove_f (hs_X p ! j) (hs_U p ! j))"
    by (simp add: X U blockmove_f_ok del: upt_Suc)
  from hs_loop_segments [OF len this] p show ?thesis by blast
qed

lemma hs_loop_cartpole:
  assumes "length x_init = 4" "length x_final = 4"
  shows "\<exists>p segs. cartpole tf N x_init x_final = Inr p \<and>
      hs_loop cartpole_f (hs_X p) (hs_U p) [0..<2 * N + 1] = Inr segs \<and> length segs = N"
proof -
  from cartpole_fields [OF assms, of tf N] obtain p where p: "cartpole tf N x_init x_final = Inr p"
    and X: "hs_X p = map (\<lambda>c. [Sym 0 0 c, Sym 0 1 c, Sym 0 2 c, Sym 0 3 c]) [0..<2 * N + 1]"
    and U: "hs_U p = map (\<lambda>c. [Sym 1 0 c]) [0..<2 * N + 1]"
    by blast
  have len: "length (hs_X p) = 2 * N + 1" "length (hs_U p) = 2 * N + 1"
    by (simp_all add: X U)
  have "\<forall>j<2 * N + 1. \<not> isl (cartpole_f (hs_X p ! j) (hs_U p ! j))"
  proof (intro allI impI)
    fix j assume "j < 2 * N + 1"
    then show "\<not> isl (cartpole_f (hs_X p ! j) (hs_U p ! j))"
      by (intro cartpole_f_ok) (simp_all add: X U del: upt_Suc)
  qed
  from hs_loop_segments [OF len this] p show ?thesis by blast
qed

lemma cartpole_swingup_fields:
  "\<exists>p. cartpole_swingup = Inr p \<and>
     hs_X p = map (\<lambda>c. [Sym 0 0 c, Sym 0 1 c, Sym 0 2 c, Sym 0 3 c]) [0..<51] \<and>
     hs_U p = map (\<lambda>c. [Sym 1 0 c]) [0..<51] \<and>
     constraints (hs_opti p) =
       [Eq (hs_X p ! 0) [Const 0, Const 0, Const 0, Const 0],
        Eq (hs_X p ! 50) [Const 1, Const pi, Const 0, Const 0]]"
proof -
  have len: "length [0, 0, 0, 0 :: real] = 4" "length [1, pi, 0, 0 :: real] = 4" by simp_all
  have n: "2 * 25 + 1 = (51::nat)" "2 * 25 = (50::nat)" by simp_all
  from cartpole_fields [OF len, of 2 25] show ?thesis
    unfolding cartpole_swingup_def n by auto
qed











section \<open>The claims\<close>

text \<open>
  C6. The Simpson quadrature weight vector built over \<open>2N+1\<close> points has first and last
  entry 1, every other odd-indexed entry 4 and every other even-indexed entry 2. The
  construction never raises, and the statement holds for every \<open>N\<close>, so in particular for
  every \<open>N \<ge> 1\<close>.
\<close>

theorem simp_weights:
  "\<exists>w. simp N = Inr w \<and> length w = 2 * N + 1 \<and> w ! 0 = 1 \<and> w ! (2 * N) = 1 \<and>
     (\<forall>i. 0 < i \<and> i < 2 * N \<longrightarrow> w ! i = (if odd i then 4 else 2))"
proof -
  let ?w = "map (\<lambda>i. if i = 0 \<or> i = 2 * N then 1 else if odd i then 4 else (2::int)) [0..<2 * N + 1]"
  have "length ?w = 2 * N + 1" by simp
  moreover have "?w ! 0 = 1"
    using nth_map_upt [of 0 "2 * N + 1" 0] by (simp del: upt_Suc)
  moreover have "?w ! (2 * N) = 1"
    by (simp del: upt_Suc)
  moreover have "\<forall>i. 0 < i \<and> i < 2 * N \<longrightarrow> ?w ! i = (if odd i then 4 else 2)"
    by (simp del: upt_Suc)
  ultimately show ?thesis
    using simp_row [of N] by blast
qed

theorem simp_weights_witness:
  "\<exists>w. simp 2 = Inr w \<and> length w = 5 \<and> w ! 0 = 1 \<and> w ! 1 = 4 \<and> w ! 2 = 2 \<and> w ! 3 = 4 \<and> w ! 4 = 1"
proof -
  from simp_weights [of 2] obtain w where w: "simp 2 = Inr w" "length w = 5" "w ! 0 = 1" "w ! 4 = 1"
    and mid: "\<forall>i. 0 < i \<and> i < 4 \<longrightarrow> w ! i = (if odd i then 4 else 2)"
    by auto
  from mid have "w ! 1 = 4" "w ! 2 = 2" "w ! 3 = 4" by simp_all
  with w show ?thesis by simp
qed




text \<open>
  C5. Hermite-Simpson scheme (block move and cart-pole) with \<open>N \<ge> 1\<close> segments over a
  horizon \<open>tf > 0\<close>: the time grid has exactly \<open>2N+1\<close> points and increases strictly from 0
  to \<open>tf\<close>; the state trajectory has \<open>2N+1\<close> columns of \<open>nx\<close> entries and the control
  trajectory \<open>2N+1\<close> columns of \<open>nu\<close> entries.
\<close>

theorem hs_grid:
  assumes "0 < tf" "1 \<le> N"
  shows "(\<exists>p. blockmove_hs tf N = Inr p \<and>
            length (hs_t p) = 2 * N + 1 \<and> sorted_wrt (<) (hs_t p) \<and>
            hs_t p ! 0 = 0 \<and> hs_t p ! (2 * N) = tf \<and>
            length (hs_X p) = 2 * N + 1 \<and> (\<forall>c\<in>set (hs_X p). length c = blockmove_nx) \<and>
            length (hs_U p) = 2 * N + 1 \<and> (\<forall>c\<in>set (hs_U p). length c = blockmove_nu)) \<and>
         (length x_init = cartpole_nx \<and> length x_final = cartpole_nx \<longrightarrow>
          (\<exists>p. cartpole tf N x_init x_final = Inr p \<and>
            length (hs_t p) = 2 * N + 1 \<and> sorted_wrt (<) (hs_t p) \<and>
            hs_t p ! 0 = 0 \<and> hs_t p ! (2 * N) = tf \<and>
            length (hs_X p) = 2 * N + 1 \<and> (\<forall>c\<in>set (hs_X p). length c = cartpole_nx) \<and>
            length (hs_U p) = 2 * N + 1 \<and> (\<forall>c\<in>set (hs_U p). length c = cartpole_nu)))"
proof (intro conjI impI)
  show "\<exists>p. blockmove_hs tf N = Inr p \<and>
            length (hs_t p) = 2 * N + 1 \<and> sorted_wrt (<) (hs_t p) \<and>
            hs_t p ! 0 = 0 \<and> hs_t p ! (2 * N) = tf \<and>
            length (hs_X p) = 2 * N + 1 \<and> (\<forall>c\<in>set (hs_X p). length c = blockmove_nx) \<and>
            length (hs_U p) = 2 * N + 1 \<and> (\<forall>c\<in>set (hs_U p). length c = blockmove_nu)"
    unfolding blockmove_hs_result
    using linspace_ends [OF assms(2), of tf] linspace_sorted [OF assms(1), of "2 * N + 1"]
    by (simp add: length_linspace blockmove_nx_def blockmove_nu_def del: upt_Suc)
next
  assume "length x_init = cartpole_nx \<and> length x_final = cartpole_nx"
  then have len: "length x_init = 4" "length x_final = 4" by (simp_all add: cartpole_nx_def)
  show "\<exists>p. cartpole tf N x_init x_final = Inr p \<and>
            length (hs_t p) = 2 * N + 1 \<and> sorted_wrt (<) (hs_t p) \<and>
            hs_t p ! 0 = 0 \<and> hs_t p ! (2 * N) = tf \<and>
            length (hs_X p) = 2 * N + 1 \<and> (\<forall>c\<in>set (hs_X p). length c = cartpole_nx) \<and>
            length (hs_U p) = 2 * N + 1 \<and> (\<forall>c\<in>set (hs_U p). length c = cartpole_nu)"
    unfolding cartpole_result [OF len]
    using linspace_ends [OF assms(2), of tf] linspace_sorted [OF assms(1), of "2 * N + 1"]
    by (simp add: length_linspace cartpole_nx_def cartpole_nu_def del: upt_Suc)
qed

theorem hs_grid_witness:
  "(\<exists>p. blockmove_hs 1 10 = Inr p \<and> length (hs_t p) = 21 \<and> length (hs_X p) = 21 \<and>
        length (hs_U p) = 21 \<and> hs_t p ! 0 = 0 \<and> hs_t p ! 20 = 1) \<and>
   (\<exists>p. cartpole 2 25 [0, 0, 0, 0] [1, pi, 0, 0] = Inr p \<and> length (hs_t p) = 51 \<and>
        length (hs_X p) = 51 \<and> length (hs_U p) = 51 \<and> hs_t p ! 0 = 0 \<and> hs_t p ! 50 = 2)"
  using hs_grid [of 1 10 "[0, 0, 0, 0]" "[1, pi, 0, 0]"] hs_grid [of 2 25 "[0, 0, 0, 0]" "[1, pi, 0, 0]"]
  by (simp add: cartpole_nx_def) blast

text \<open>
  C3. Trapezoidal transcription with \<open>N\<close> segments and horizon \<open>tf\<close>: after the four boundary
  constraints, the constraints of the assembled problem are, for \<open>i = 0, \<dots>, N-1\<close> in order,
  exactly the two equalities \<open>x[i+1] - x[i] = (h/2)(v[i+1] + v[i])\<close> and
  \<open>v[i+1] - v[i] = (h/2)(u[i+1] + u[i])\<close> with \<open>h = tf/N\<close>; values of the variables satisfy
  them if and only if they satisfy these equations.
\<close>

theorem trapz_collocation:
  "\<exists>p. blockmove_trapz tf N = Inr p \<and>
     (let x = (\<lambda>i. concat (trapz_X p) ! i);
          v = (\<lambda>i. concat (trapz_V p) ! i);
          u = (\<lambda>i. concat (trapz_U p) ! i);
          h = tf / real N
      in drop 4 (constraints (trapz_opti p)) =
           concat (map (\<lambda>i. [Eq [Sub (x (i + 1)) (x i)] [Mul (Const (h / 2)) (Add (v (i + 1)) (v i))],
                             Eq [Sub (v (i + 1)) (v i)] [Mul (Const (h / 2)) (Add (u (i + 1)) (u i))]])
                       [0..<N]) \<and>
         (\<forall>a. list_all (holds a) (drop 4 (constraints (trapz_opti p))) =
              (\<forall>i<N. eval a (x (i + 1)) - eval a (x i) = h / 2 * (eval a (v (i + 1)) + eval a (v i)) \<and>
                      eval a (v (i + 1)) - eval a (v i) = h / 2 * (eval a (u (i + 1)) + eval a (u i)))))"
proof -
  from blockmove_trapz_fields [of tf N] obtain p where p: "blockmove_trapz tf N = Inr p"
    and X: "trapz_X p = [map (\<lambda>r. Sym 0 r 0) [0..<N + 1]]"
    and V: "trapz_V p = [map (\<lambda>r. Sym 1 r 0) [0..<N + 1]]"
    and U: "trapz_U p = [map (\<lambda>r. Sym 2 r 0) [0..<N + 1]]"
    and cs: "constraints (trapz_opti p) =
       [Eq [Sym 0 0 0] [Const 0], Eq [Sym 0 N 0] [Const 1],
        Eq [Sym 1 0 0] [Const 0], Eq [Sym 1 N 0] [Const 0]] @
       concat (map (\<lambda>i.
         [Eq [Sub (Sym 0 (i + 1) 0) (Sym 0 i 0)]
             [Mul (Const (0.5 * tf / real N)) (Add (Sym 1 (i + 1) 0) (Sym 1 i 0))],
          Eq [Sub (Sym 1 (i + 1) 0) (Sym 1 i 0)]
             [Mul (Const (0.5 * tf / real N)) (Add (Sym 2 (i + 1) 0) (Sym 2 i 0))]]) [0..<N])"
    by blast
  define x where "x = (\<lambda>i. concat (trapz_X p) ! i)"
  define v where "v = (\<lambda>i. concat (trapz_V p) ! i)"
  define u where "u = (\<lambda>i. concat (trapz_U p) ! i)"
  define h where "h = tf / real N"
  have entry: "x i = Sym 0 i 0" "v i = Sym 1 i 0" "u i = Sym 2 i 0" if "i \<le> N" for i
    using that by (simp_all add: x_def v_def u_def X V U del: upt_Suc)
  have c: "0.5 * tf / real N = h / 2" by (simp add: h_def)
  have colloc: "drop 4 (constraints (trapz_opti p)) =
      concat (map (\<lambda>i. [Eq [Sub (x (i + 1)) (x i)] [Mul (Const (h / 2)) (Add (v (i + 1)) (v i))],
                        Eq [Sub (v (i + 1)) (v i)] [Mul (Const (h / 2)) (Add (u (i + 1)) (u i))]])
                  [0..<N])"
  proof -
    have "map (\<lambda>i.
         [Eq [Sub (Sym 0 (i + 1) 0) (Sym 0 i 0)]
             [Mul (Const (0.5 * tf / real N)) (Add (Sym 1 (i + 1) 0) (Sym 1 i 0))],
          Eq [Sub (Sym 1 (i + 1) 0) (Sym 1 i 0)]
             [Mul (Const (0.5 * tf / real N)) (Add (Sym 2 (i + 1) 0) (Sym 2 i 0))]]) [0..<N] =
        map (\<lambda>i. [Eq [Sub (x (i + 1)) (x i)] [Mul (Const (h / 2)) (Add (v (i + 1)) (v i))],
                        Eq [Sub (v (i + 1)) (v i)] [Mul (Const (h / 2)) (Add (u (i + 1)) (u i))]])
                  [0..<N]"
    proof (rule map_cong [OF refl])
      fix i assume "i \<in> set [0..<N]"
      then have "i \<le> N" "i + 1 \<le> N" by simp_all
      then show "[Eq [Sub (Sym 0 (i + 1) 0) (Sym 0 i 0)]
             [Mul (Const (0.5 * tf / real N)) (Add (Sym 1 (i + 1) 0) (Sym 1 i 0))],
          Eq [Sub (Sym 1 (i + 1) 0) (Sym 1 i 0)]
             [Mul (Const (0.5 * tf / real N)) (Add (Sym 2 (i + 1) 0) (Sym 2 i 0))]] =
          [Eq [Sub (x (i + 1)) (x i)] [Mul (Const (h / 2)) (Add (v (i + 1)) (v i))],
                        Eq [Sub (v (i + 1)) (v i)] [Mul (Const (h / 2)) (Add (u (i + 1)) (u i))]]"
        by (simp only: entry c)
    qed
    then show ?thesis by (simp only: cs drop_append) simp
  qed
  have sem: "list_all (holds a) (drop 4 (constraints (trapz_opti p))) =
      (\<forall>i<N. eval a (x (i + 1)) - eval a (x i) = h / 2 * (eval a (v (i + 1)) + eval a (v i)) \<and>
              eval a (v (i + 1)) - eval a (v i) = h / 2 * (eval a (u (i + 1)) + eval a (u i)))" for a
    unfolding colloc by (auto simp add: list_all_iff)
  from p colloc sem show ?thesis
    unfolding x_def v_def u_def h_def Let_def by blast
qed

theorem trapz_collocation_witness:
  "\<exists>p. blockmove_trapz 1 2 = Inr p \<and>
     drop 4 (constraints (trapz_opti p)) =
       [Eq [Sub (Sym 0 1 0) (Sym 0 0 0)] [Mul (Const (1 / 4)) (Add (Sym 1 1 0) (Sym 1 0 0))],
        Eq [Sub (Sym 1 1 0) (Sym 1 0 0)] [Mul (Const (1 / 4)) (Add (Sym 2 1 0) (Sym 2 0 0))],
        Eq [Sub (Sym 0 2 0) (Sym 0 1 0)] [Mul (Const (1 / 4)) (Add (Sym 1 2 0) (Sym 1 1 0))],
        Eq [Sub (Sym 1 2 0) (Sym 1 1 0)] [Mul (Const (1 / 4)) (Add (Sym 2 2 0) (Sym 2 1 0))]]"
proof -
  from trapz_collocation [of 1 2] obtain p where p: "blockmove_trapz 1 2 = Inr p"
    and cs: "drop 4 (constraints (trapz_opti p)) =
           concat (map (\<lambda>i. [Eq [Sub (concat (trapz_X p) ! (i + 1)) (concat (trapz_X p) ! i)]
                               [Mul (Const (1 / real (2::nat) / 2))
                                 (Add (concat (trapz_V p) ! (i + 1)) (concat (trapz_V p) ! i))],
                             Eq [Sub (concat (trapz_V p) ! (i + 1)) (concat (trapz_V p) ! i)]
                               [Mul (Const (1 / real (2::nat) / 2))
                                 (Add (concat (trapz_U p) ! (i + 1)) (concat (trapz_U p) ! i))]])
                       [0..<2])"
    unfolding Let_def by blast
  from p have "trapz_X p = [[Sym 0 0 0, Sym 0 1 0, Sym 0 2 0]]"
    "trapz_V p = [[Sym 1 0 0, Sym 1 1 0, Sym 1 2 0]]"
    "trapz_U p = [[Sym 2 0 0, Sym 2 1 0, Sym 2 2 0]]"
    unfolding blockmove_trapz_result by (auto simp add: upt_conv_Cons)
  with p cs show ?thesis by (simp add: upt_conv_Cons)
qed

text \<open>
  C7. In every assembled problem the boundary constraints pin the state at grid index 0 to
  the initial state and at the last grid index to the final state, and nothing else: the
  boundary cell of the trapezoidal problem adds exactly the four equalities on \<open>X[0]\<close>,
  \<open>X[N]\<close>, \<open>V[0]\<close>, \<open>V[N]\<close> (the other \<open>2N\<close> constraints are the collocation constraints of
  C3), and the Hermite-Simpson block-move and cart-pole problems have exactly the two
  vector equalities on column 0 and on the last column \<open>2N\<close>.
\<close>

theorem boundary_constraints:
  "(\<exists>p. blockmove_trapz tf N = Inr p \<and>
      take 4 (constraints (trapz_opti p)) =
        [Eq [concat (trapz_X p) ! 0] [Const 0], Eq [concat (trapz_X p) ! N] [Const 1],
         Eq [concat (trapz_V p) ! 0] [Const 0], Eq [concat (trapz_V p) ! N] [Const 0]] \<and>
      length (constraints (trapz_opti p)) = 4 + 2 * N \<and>
      trapz_boundary N (trapz_X p) (trapz_V p) Opti = Inr (Opti\<lparr>constraints := take 4 (constraints (trapz_opti p))\<rparr>)) \<and>
   (\<exists>p. blockmove_hs tf N = Inr p \<and>
      constraints (hs_opti p) =
        [Eq (hs_X p ! 0) [Const 0, Const 0], Eq (hs_X p ! (2 * N)) [Const 1, Const 0]]) \<and>
   (length x_init = cartpole_nx \<and> length x_final = cartpole_nx \<longrightarrow>
     (\<exists>p. cartpole tf N x_init x_final = Inr p \<and>
        constraints (hs_opti p) =
          [Eq (hs_X p ! 0) (map Const x_init), Eq (hs_X p ! (2 * N)) (map Const x_final)]))"
proof (intro conjI impI)
  from blockmove_trapz_fields [of tf N] obtain p where p: "blockmove_trapz tf N = Inr p"
    and X: "trapz_X p = [map (\<lambda>r. Sym 0 r 0) [0..<N + 1]]"
    and V: "trapz_V p = [map (\<lambda>r. Sym 1 r 0) [0..<N + 1]]"
    and cs: "constraints (trapz_opti p) =
       [Eq [Sym 0 0 0] [Const 0], Eq [Sym 0 N 0] [Const 1],
        Eq [Sym 1 0 0] [Const 0], Eq [Sym 1 N 0] [Const 0]] @
       concat (map (\<lambda>i.
         [Eq [Sub (Sym 0 (i + 1) 0) (Sym 0 i 0)]
             [Mul (Const (0.5 * tf / real N)) (Add (Sym 1 (i + 1) 0) (Sym 1 i 0))],
          Eq [Sub (Sym 1 (i + 1) 0) (Sym 1 i 0)]
             [Mul (Const (0.5 * tf / real N)) (Add (Sym 2 (i + 1) 0) (Sym 2 i 0))]]) [0..<N])"
    by blast
  have entry: "concat (trapz_X p) ! 0 = Sym 0 0 0" "concat (trapz_X p) ! N = Sym 0 N 0"
    "concat (trapz_V p) ! 0 = Sym 1 0 0" "concat (trapz_V p) ! N = Sym 1 N 0"
    by (simp_all add: X V del: upt_Suc)
  have t: "take 4 (constraints (trapz_opti p)) =
        [Eq [concat (trapz_X p) ! 0] [Const 0], Eq [concat (trapz_X p) ! N] [Const 1],
         Eq [concat (trapz_V p) ! 0] [Const 0], Eq [concat (trapz_V p) ! N] [Const 0]]"
    by (simp add: cs entry)
  have len: "length (constraints (trapz_opti p)) = 4 + 2 * N"
    by (simp add: cs length_concat comp_def sum_list_triv)
  have "length (concat (trapz_X p)) = N + 1" "length (concat (trapz_V p)) = N + 1"
    by (simp_all add: X V)
  from trapz_boundary_ok [OF this, of Opti]
  have b: "trapz_boundary N (trapz_X p) (trapz_V p) Opti =
      Inr (Opti\<lparr>constraints := take 4 (constraints (trapz_opti p))\<rparr>)"
    by (simp add: t Opti_def)
  from p t len b
  show "\<exists>p. blockmove_trapz tf N = Inr p \<and>
      take 4 (constraints (trapz_opti p)) =
        [Eq [concat (trapz_X p) ! 0] [Const 0], Eq [concat (trapz_X p) ! N] [Const 1],
         Eq [concat (trapz_V p) ! 0] [Const 0], Eq [concat (trapz_V p) ! N] [Const 0]] \<and>
      length (constraints (trapz_opti p)) = 4 + 2 * N \<and>
      trapz_boundary N (trapz_X p) (trapz_V p) Opti = Inr (Opti\<lparr>constraints := take 4 (constraints (trapz_opti p))\<rparr>)"
    by blast
next
  from blockmove_hs_fields [of tf N]
  show "\<exists>p. blockmove_hs tf N = Inr p \<and>
      constraints (hs_opti p) =
        [Eq (hs_X p ! 0) [Const 0, Const 0], Eq (hs_X p ! (2 * N)) [Const 1, Const 0]]"
    by blast
next
  assume "length x_init = cartpole_nx \<and> length x_final = cartpole_nx"
  then have "length x_init = 4" "length x_final = 4" by (simp_all add: cartpole_nx_def)
  from cartpole_fields [OF this, of tf N]
  show "\<exists>p. cartpole tf N x_init x_final = Inr p \<and>
        constraints (hs_opti p) =
          [Eq (hs_X p ! 0) (map Const x_init), Eq (hs_X p ! (2 * N)) (map Const x_final)]"
    by blast
qed

theorem boundary_constraints_witness:
  "\<exists>p. cartpole 2 25 [0, 0, 0, 0] [1, pi, 0, 0] = Inr p \<and>
        constraints (hs_opti p) =
          [Eq (hs_X p ! 0) [Const 0, Const 0, Const 0, Const 0],
           Eq (hs_X p ! 50) [Const 1, Const pi, Const 0, Const 0]]"
  using boundary_constraints [of 2 25 "[0, 0, 0, 0]" "[1, pi, 0, 0]"]
  by (simp add: cartpole_nx_def)

text \<open>
  C10. The Hermite-Simpson dynamics-constraints loop over \<open>i = 0, \<dots>, 2N\<close>, on a state matrix
  of \<open>2N+1\<close> columns of \<open>nx\<close> entries and a control matrix of \<open>2N+1\<close> columns of \<open>nu\<close>
  entries (block move and cart-pole): the loop ends without an error, its body runs exactly
  \<open>N\<close> times, and pass \<open>k\<close> reads the columns \<open>2k\<close>, \<open>2k+1\<close> and \<open>2k+2\<close>, all of them
  inside the matrices, as left, middle and right point. This holds for every \<open>N\<close>, so for
  every \<open>N \<ge> 1\<close>.
\<close>

theorem hs_loop_in_bounds:
  assumes "length X = 2 * N + 1" "length U = 2 * N + 1"
  shows
   "((\<forall>c\<in>set X. length c = blockmove_nx) \<and> (\<forall>c\<in>set U. length c = blockmove_nu) \<longrightarrow>
      (\<exists>segs. hs_loop blockmove_f X U [0..<2 * N + 1] = Inr segs \<and> length segs = N \<and>
        (\<forall>k<N. 2 * k + 2 < length X \<and> 2 * k + 2 < length U \<and>
          x_left (segs ! k) = X ! (2 * k) \<and> x_mid (segs ! k) = X ! (2 * k + 1) \<and>
          x_right (segs ! k) = X ! (2 * k + 2) \<and>
          u_left (segs ! k) = U ! (2 * k) \<and> u_mid (segs ! k) = U ! (2 * k + 1) \<and>
          u_right (segs ! k) = U ! (2 * k + 2)))) \<and>
    ((\<forall>c\<in>set X. length c = cartpole_nx) \<and> (\<forall>c\<in>set U. length c = cartpole_nu) \<longrightarrow>
      (\<exists>segs. hs_loop cartpole_f X U [0..<2 * N + 1] = Inr segs \<and> length segs = N \<and>
        (\<forall>k<N. 2 * k + 2 < length X \<and> 2 * k + 2 < length U \<and>
          x_left (segs ! k) = X ! (2 * k) \<and> x_mid (segs ! k) = X ! (2 * k + 1) \<and>
          x_right (segs ! k) = X ! (2 * k + 2) \<and>
          u_left (segs ! k) = U ! (2 * k) \<and> u_mid (segs ! k) = U ! (2 * k + 1) \<and>
          u_right (segs ! k) = U ! (2 * k + 2))))"
proof (intro conjI impI)
  assume shape: "(\<forall>c\<in>set X. length c = blockmove_nx) \<and> (\<forall>c\<in>set U. length c = blockmove_nu)"
  have "\<forall>j<2 * N + 1. \<not> isl (blockmove_f (X ! j) (U ! j))"
  proof (intro allI impI)
    fix j assume "j < 2 * N + 1"
    with assms have "X ! j \<in> set X" "U ! j \<in> set U" by simp_all
    with shape have "length (X ! j) = 2" "length (U ! j) = 1"
      by (simp_all add: blockmove_nx_def blockmove_nu_def)
    then show "\<not> isl (blockmove_f (X ! j) (U ! j))" by (simp add: blockmove_f_ok)
  qed
  from hs_loop_segments [OF assms this]
  show "\<exists>segs. hs_loop blockmove_f X U [0..<2 * N + 1] = Inr segs \<and> length segs = N \<and>
        (\<forall>k<N. 2 * k + 2 < length X \<and> 2 * k + 2 < length U \<and>
          x_left (segs ! k) = X ! (2 * k) \<and> x_mid (segs ! k) = X ! (2 * k + 1) \<and>
          x_right (segs ! k) = X ! (2 * k + 2) \<and>
          u_left (segs ! k) = U ! (2 * k) \<and> u_mid (segs ! k) = U ! (2 * k + 1) \<and>
          u_right (segs ! k) = U ! (2 * k + 2))" .
next
  assume shape: "(\<forall>c\<in>set X. length c = cartpole_nx) \<and> (\<forall>c\<in>set U. length c = cartpole_nu)"
  have "\<forall>j<2 * N + 1. \<not> isl (cartpole_f (X ! j) (U ! j))"
  proof (intro allI impI)
    fix j assume "j < 2 * N + 1"
    with assms have "X ! j \<in> set X" "U ! j \<in> set U" by simp_all
    with shape have "length (X ! j) = 4" "length (U ! j) = 1"
      by (simp_all add: cartpole_nx_def cartpole_nu_def)
    then show "\<not> isl (cartpole_f (X ! j) (U ! j))" by (rule cartpole_f_ok)
  qed
  from hs_loop_segments [OF assms this]
  show "\<exists>segs. hs_loop cartpole_f X U [0..<2 * N + 1] = Inr segs \<and> length segs = N \<and>
        (\<forall>k<N. 2 * k + 2 < length X \<and> 2 * k + 2 < length U \<and>
          x_left (segs ! k) = X ! (2 * k) \<and> x_mid (segs ! k) = X ! (2 * k + 1) \<and>
          x_right (segs ! k) = X ! (2 * k + 2) \<and>
          u_left (segs ! k) = U ! (2 * k) \<and> u_mid (segs ! k) = U ! (2 * k + 1) \<and>
          u_right (segs ! k) = U ! (2 * k + 2))" .
qed

theorem hs_loop_in_bounds_witness:
  "(\<exists>segs. hs_loop blockmove_f
       [[Sym 0 0 0, Sym 0 1 0], [Sym 0 0 1, Sym 0 1 1], [Sym 0 0 2, Sym 0 1 2],
        [Sym 0 0 3, Sym 0 1 3], [Sym 0 0 4, Sym 0 1 4]]
       [[Sym 1 0 0], [Sym 1 0 1], [Sym 1 0 2], [Sym 1 0 3], [Sym 1 0 4]] [0..<5] = Inr segs \<and>
     length segs = 2 \<and>
     x_left (segs ! 1) = [Sym 0 0 2, Sym 0 1 2] \<and> x_mid (segs ! 1) = [Sym 0 0 3, Sym 0 1 3] \<and>
     x_right (segs ! 1) = [Sym 0 0 4, Sym 0 1 4] \<and> u_right (segs ! 1) = [Sym 1 0 4]) \<and>
   (\<exists>segs. hs_loop cartpole_f
       [[Sym 0 0 0, Sym 0 1 0, Sym 0 2 0, Sym 0 3 0], [Sym 0 0 1, Sym 0 1 1, Sym 0 2 1, Sym 0 3 1],
        [Sym 0 0 2, Sym 0 1 2, Sym 0 2 2, Sym 0 3 2]]
       [[Sym 1 0 0], [Sym 1 0 1], [Sym 1 0 2]] [0..<3] = Inr segs \<and>
     length segs = 1 \<and>
     x_left (segs ! 0) = [Sym 0 0 0, Sym 0 1 0, Sym 0 2 0, Sym 0 3 0] \<and>
     x_right (segs ! 0) = [Sym 0 0 2, Sym 0 1 2, Sym 0 2 2, Sym 0 3 2] \<and> u_mid (segs ! 0) = [Sym 1 0 1])"
proof (rule conjI)
  let ?X = "[[Sym 0 0 0, Sym 0 1 0], [Sym 0 0 1, Sym 0 1 1], [Sym 0 0 2, Sym 0 1 2],
        [Sym 0 0 3, Sym 0 1 3], [Sym 0 0 4, Sym 0 1 4]]"
  let ?U = "[[Sym 1 0 0], [Sym 1 0 1], [Sym 1 0 2], [Sym 1 0 3], [Sym 1 0 4]]"
  have "length ?X = 2 * 2 + 1" "length ?U = 2 * 2 + 1" by simp_all
  from hs_loop_in_bounds [OF this]
  obtain segs where s: "hs_loop blockmove_f ?X ?U [0..<2 * 2 + 1] = Inr segs" "length segs = 2"
    and k: "\<forall>k<2. x_left (segs ! k) = ?X ! (2 * k) \<and> x_mid (segs ! k) = ?X ! (2 * k + 1) \<and>
          x_right (segs ! k) = ?X ! (2 * k + 2) \<and> u_right (segs ! k) = ?U ! (2 * k + 2)"
    by (auto simp add: blockmove_nx_def blockmove_nu_def)
  from k have "x_left (segs ! 1) = ?X ! (2 * 1) \<and> x_mid (segs ! 1) = ?X ! (2 * 1 + 1) \<and>
          x_right (segs ! 1) = ?X ! (2 * 1 + 2) \<and> u_right (segs ! 1) = ?U ! (2 * 1 + 2)"
    by simp
  with s show "\<exists>segs. hs_loop blockmove_f ?X ?U [0..<5] = Inr segs \<and>
     length segs = 2 \<and>
     x_left (segs ! 1) = [Sym 0 0 2, Sym 0 1 2] \<and> x_mid (segs ! 1) = [Sym 0 0 3, Sym 0 1 3] \<and>
     x_right (segs ! 1) = [Sym 0 0 4, Sym 0 1 4] \<and> u_right (segs ! 1) = [Sym 1 0 4]"
    by simp
next
  let ?X = "[[Sym 0 0 0, Sym 0 1 0, Sym 0 2 0, Sym 0 3 0], [Sym 0 0 1, Sym 0 1 1, Sym 0 2 1, Sym 0 3 1],
        [Sym 0 0 2, Sym 0 1 2, Sym 0 2 2, Sym 0 3 2]]"
  let ?U = "[[Sym 1 0 0], [Sym 1 0 1], [Sym 1 0 2]]"
  have "length ?X = 2 * 1 + 1" "length ?U = 2 * 1 + 1" by simp_all
  from hs_loop_in_bounds [OF this]
  obtain segs where s: "hs_loop cartpole_f ?X ?U [0..<2 * 1 + 1] = Inr segs" "length segs = 1"
    and k: "\<forall>k<1. x_left (segs ! k) = ?X ! (2 * k) \<and> x_right (segs ! k) = ?X ! (2 * k + 2) \<and>
          u_mid (segs ! k) = ?U ! (2 * k + 1)"
    by (auto simp add: cartpole_nx_def cartpole_nu_def)
  from k have "x_left (segs ! 0) = ?X ! (2 * 0) \<and> x_right (segs ! 0) = ?X ! (2 * 0 + 2) \<and>
          u_mid (segs ! 0) = ?U ! (2 * 0 + 1)"
    by simp
  with s show "\<exists>segs. hs_loop cartpole_f ?X ?U [0..<3] = Inr segs \<and>
     length segs = 1 \<and>
     x_left (segs ! 0) = [Sym 0 0 0, Sym 0 1 0, Sym 0 2 0, Sym 0 3 0] \<and>
     x_right (segs ! 0) = [Sym 0 0 2, Sym 0 1 2, Sym 0 2 2, Sym 0 3 2] \<and> u_mid (segs ! 0) = [Sym 1 0 1]"
    by simp
qed

text \<open>
  C1, as stated: for every segment the Hermite-Simpson builder imposes an interpolation and a
  collocation constraint at the midpoint. The source leaves both as \<^verbatim>\<open>TODO\<close> comments, and
  the statement fails on it: with one segment the assembled block-move problem has the two
  boundary constraints and nothing on the midpoint column 1.
\<close>

theorem hs_midpoint_counterexample:
  "map_sum id (constraints \<circ> hs_opti) (blockmove_hs 1 1) =
     Inr [Eq [Sym 0 0 0, Sym 0 1 0] [Const 0, Const 0], Eq [Sym 0 0 2, Sym 0 1 2] [Const 1, Const 0]]"
  unfolding blockmove_hs_result by (simp add: upt_conv_Cons)

text \<open>
  C1, amended: in the Hermite-Simpson transcription of the source (block move and
  cart-pole) the dynamics-constraints loop runs its body once per segment, \<open>N\<close> times, reading
  the left, middle and right states and controls and evaluating the dynamics there, and
  imposes no constraint: the assembled problem has exactly two constraints, and values of
  the variables are feasible exactly when the first and the last state column have the
  boundary values.
\<close>

theorem hs_loop_adds_nothing:
  "(\<exists>p segs. blockmove_hs tf N = Inr p \<and>
      hs_loop blockmove_f (hs_X p) (hs_U p) [0..<2 * N + 1] = Inr segs \<and> length segs = N \<and>
      length (constraints (hs_opti p)) = 2 \<and>
      (\<forall>a. feasible a (hs_opti p) =
         (map (eval a) (hs_X p ! 0) = [0, 0] \<and> map (eval a) (hs_X p ! (2 * N)) = [1, 0]))) \<and>
   (length x_init = cartpole_nx \<and> length x_final = cartpole_nx \<longrightarrow>
     (\<exists>p segs. cartpole tf N x_init x_final = Inr p \<and>
        hs_loop cartpole_f (hs_X p) (hs_U p) [0..<2 * N + 1] = Inr segs \<and> length segs = N \<and>
        length (constraints (hs_opti p)) = 2 \<and>
        (\<forall>a. feasible a (hs_opti p) =
           (map (eval a) (hs_X p ! 0) = x_init \<and> map (eval a) (hs_X p ! (2 * N)) = x_final))))"
proof (intro conjI impI)
  from hs_loop_builder [of tf N] obtain p segs where p: "blockmove_hs tf N = Inr p"
    and l: "hs_loop blockmove_f (hs_X p) (hs_U p) [0..<2 * N + 1] = Inr segs" "length segs = N"
    by blast
  from blockmove_hs_fields [of tf N] p
  have cs: "constraints (hs_opti p) =
       [Eq (hs_X p ! 0) [Const 0, Const 0], Eq (hs_X p ! (2 * N)) [Const 1, Const 0]]"
    by auto
  have "feasible a (hs_opti p) =
         (map (eval a) (hs_X p ! 0) = [0, 0] \<and> map (eval a) (hs_X p ! (2 * N)) = [1, 0])" for a
    by (simp add: feasible_two [OF cs])
  with p l cs
  show "\<exists>p segs. blockmove_hs tf N = Inr p \<and>
      hs_loop blockmove_f (hs_X p) (hs_U p) [0..<2 * N + 1] = Inr segs \<and> length segs = N \<and>
      length (constraints (hs_opti p)) = 2 \<and>
      (\<forall>a. feasible a (hs_opti p) =
         (map (eval a) (hs_X p ! 0) = [0, 0] \<and> map (eval a) (hs_X p ! (2 * N)) = [1, 0]))"
    by (intro exI [of _ p] exI [of _ segs]) simp
next
  assume "length x_init = cartpole_nx \<and> length x_final = cartpole_nx"
  then have len: "length x_init = 4" "length x_final = 4" by (simp_all add: cartpole_nx_def)
  from hs_loop_cartpole [OF len, of tf N] obtain p segs where p: "cartpole tf N x_init x_final = Inr p"
    and l: "hs_loop cartpole_f (hs_X p) (hs_U p) [0..<2 * N + 1] = Inr segs" "length segs = N"
    by blast
  from cartpole_fields [OF len, of tf N] p
  have cs: "constraints (hs_opti p) =
       [Eq (hs_X p ! 0) (map Const x_init), Eq (hs_X p ! (2 * N)) (map Const x_final)]"
    by auto
  have "feasible a (hs_opti p) =
         (map (eval a) (hs_X p ! 0) = x_init \<and> map (eval a) (hs_X p ! (2 * N)) = x_final)" for a
    by (simp only: feasible_two [OF cs] map_eval_Const)
  with p l cs
  show "\<exists>p segs. cartpole tf N x_init x_final = Inr p \<and>
        hs_loop cartpole_f (hs_X p) (hs_U p) [0..<2 * N + 1] = Inr segs \<and> length segs = N \<and>
        length (constraints (hs_opti p)) = 2 \<and>
        (\<forall>a. feasible a (hs_opti p) =
           (map (eval a) (hs_X p ! 0) = x_init \<and> map (eval a) (hs_X p ! (2 * N)) = x_final))"
    by (intro exI [of _ p] exI [of _ segs]) simp
qed

theorem hs_loop_adds_nothing_witness:
  "(\<exists>p segs. blockmove_hs 1 10 = Inr p \<and>
      hs_loop blockmove_f (hs_X p) (hs_U p) [0..<21] = Inr segs \<and> length segs = 10 \<and>
      length (constraints (hs_opti p)) = 2) \<and>
   (\<exists>p segs. cartpole 2 25 [0, 0, 0, 0] [1, pi, 0, 0] = Inr p \<and>
      hs_loop cartpole_f (hs_X p) (hs_U p) [0..<51] = Inr segs \<and> length segs = 25 \<and>
      length (constraints (hs_opti p)) = 2)"
proof -
  have a: "2 * 10 + 1 = (21::nat)" "2 * 25 + 1 = (51::nat)" by simp_all
  from hs_loop_adds_nothing [of 1 10 "[0, 0, 0, 0]" "[1, pi, 0, 0]"]
    hs_loop_adds_nothing [of 2 25 "[0, 0, 0, 0]" "[1, pi, 0, 0]"]
  show ?thesis
    unfolding a by (simp add: cartpole_nx_def) blast
qed

text \<open>
  C2. The Hermite-Simpson cost is the Simpson quadrature of the running cost, the dot product
  of the Simpson weights with the squared controls scaled by \<open>h/3\<close>, \<open>h = tf/(2N)\<close>. The
  source builds the Simpson weight vector and takes the dot product, but leaves the factor
  \<open>h/3\<close> out, where the trapezoidal cell does scale its quadrature by the step. With one
  segment and every control equal to 1 the objective of the source is \<open>1 + 4 + 1 = 6\<close> for the
  block move (\<open>tf = 1\<close>) and for the cart-pole (\<open>tf = 2\<close>), where the quadrature gives
  \<open>(1/2)/3 \<cdot> 6 = 1\<close> and \<open>(2/2)/3 \<cdot> 6 = 2\<close>.
\<close>

theorem hs_cost_missing_factor:
  "map_sum id (eval all_ones \<circ> hs_J) (blockmove_hs 1 1) = Inr 6 \<and>
   1 / (2 * 1) / 3 * (1 * 1\<^sup>2 + 4 * 1\<^sup>2 + 1 * 1\<^sup>2) \<noteq> (6::real) \<and>
   map_sum id (eval all_ones \<circ> hs_J) (cartpole 2 1 [0, 0, 0, 0] [1, pi, 0, 0]) = Inr 6 \<and>
   2 / (2 * 1) / 3 * (1 * 1\<^sup>2 + 4 * 1\<^sup>2 + 1 * 1\<^sup>2) \<noteq> (6::real)"
proof -
  have len: "length [0, 0, 0, 0 :: real] = 4" "length [1, pi, 0, 0 :: real] = 4" by simp_all
  show ?thesis
    unfolding blockmove_hs_result cartpole_result [OF len]
    by (simp add: upt_conv_Cons sum_products_def all_ones_def)
qed

text \<open>
  C8, as stated: a non-positive segment count fails at construction time with a
  ConfigurationError (and a dimension mismatch with a DimensionError). The source checks
  nothing: with \<open>N = 0\<close> all three problems are assembled without any error.
\<close>

theorem no_validation_counterexample:
  "\<not> isl (blockmove_trapz 1 0) \<and> \<not> isl (blockmove_hs 1 0) \<and>
   \<not> isl (cartpole 2 0 [0, 0, 0, 0] [1, pi, 0, 0])"
  by (simp add: blockmove_trapz_result blockmove_hs_result cartpole_result)

text \<open>
  C8, amended: problem construction validates nothing. For every segment count \<open>N \<ge> 0\<close>,
  zero included, and every horizon, the variables, the grid, the objective and the
  constraints are assembled without an error; for the cart-pole this takes boundary states
  of \<open>nx\<close> entries. The dimensions \<open>nx\<close> and \<open>nu\<close> are constants of the source from which the
  dynamics function is derived.
\<close>

theorem construction_never_fails:
  "\<not> isl (blockmove_trapz tf N) \<and> \<not> isl (blockmove_hs tf N) \<and>
   (length x_init = cartpole_nx \<and> length x_final = cartpole_nx \<longrightarrow>
      \<not> isl (cartpole tf N x_init x_final))"
  by (simp add: blockmove_trapz_result blockmove_hs_result cartpole_result cartpole_nx_def)

theorem construction_never_fails_witness:
  "\<not> isl (blockmove_trapz 1 20) \<and> \<not> isl (blockmove_hs 1 10) \<and>
   \<not> isl (cartpole 2 25 [0, 0, 0, 0] [1, pi, 0, 0])"
  using construction_never_fails [of 1 20 "[0, 0, 0, 0]" "[1, pi, 0, 0]"]
    construction_never_fails [of 1 10 "[0, 0, 0, 0]" "[1, pi, 0, 0]"]
    construction_never_fails [of 2 25 "[0, 0, 0, 0]" "[1, pi, 0, 0]"]
  by (simp add: cartpole_nx_def)

text \<open>
  C9, as stated: in the cart-pole swing-up (\<open>tf = 2\<close>, \<open>N = 25\<close>) path constraints keep
  \<open>|u| \<le> u_max = 10\<close> and \<open>|x\<^sub>0| \<le> d_max = 2\<close> at every grid point. The source leaves both path
  constraints as \<^verbatim>\<open>TODO\<close> comments, and the statement fails on it: values with control 11 at
  grid point 0 and cart position 3 at grid point 1 satisfy every constraint of the assembled
  problem. (\<open>Sym 1 0 c\<close> is the control and \<open>Sym 0 0 c\<close> the cart position at grid point \<open>c\<close>.)
\<close>

theorem path_constraints_counterexample:
  "map_sum id (feasible overshoot \<circ> hs_opti) cartpole_swingup = Inr True \<and>
   map_sum id (eval overshoot \<circ> hd \<circ> hd \<circ> hs_U) cartpole_swingup = Inr 11 \<and>
   map_sum id (eval overshoot \<circ> hd \<circ> hd \<circ> tl \<circ> hs_X) cartpole_swingup = Inr 3 \<and>
   u_max < \<bar>11\<bar> \<and> d_max < \<bar>3\<bar>"
proof -
  from cartpole_swingup_fields obtain p where p: "cartpole_swingup = Inr p"
    and X: "hs_X p = map (\<lambda>c. [Sym 0 0 c, Sym 0 1 c, Sym 0 2 c, Sym 0 3 c]) [0..<51]"
    and U: "hs_U p = map (\<lambda>c. [Sym 1 0 c]) [0..<51]"
    and cs: "constraints (hs_opti p) =
       [Eq (hs_X p ! 0) [Const 0, Const 0, Const 0, Const 0],
        Eq (hs_X p ! 50) [Const 1, Const pi, Const 0, Const 0]]"
    by blast
  have "feasible overshoot (hs_opti p)"
    by (simp add: feasible_two [OF cs] X overshoot_def del: upt_Suc)
  moreover have "eval overshoot (hd (hd (hs_U p))) = 11"
    by (simp add: U upt_conv_Cons [of 0 51] overshoot_def)
  moreover have "eval overshoot (hd (hd (tl (hs_X p)))) = 3"
    by (simp add: X upt_conv_Cons [of 0 51] upt_conv_Cons [of "Suc 0" 51] overshoot_def)
  ultimately show ?thesis
    by (simp add: p u_max_def d_max_def)
qed

text \<open>
  C9, amended: the cart-pole swing-up of the source defines \<open>u_max = 10\<close> and \<open>d_max = 2\<close> but
  imposes no path constraint. Its only constraints are the two boundary equalities, so
  values of the variables are feasible exactly when the first state column is
  \<open>[0, 0, 0, 0]\<close> and the last is \<open>[1, \<pi>, 0, 0]\<close>; setting every control to \<open>u_max + 1\<close>, or every
  interior cart position to \<open>d_max + 1\<close>, keeps a feasible point feasible.
\<close>

theorem cartpole_swingup_unbounded:
  "\<exists>p. cartpole_swingup = Inr p \<and>
     constraints (hs_opti p) =
       [Eq (hs_X p ! 0) [Const 0, Const 0, Const 0, Const 0],
        Eq (hs_X p ! 50) [Const 1, Const pi, Const 0, Const 0]] \<and>
     (\<forall>a. feasible a (hs_opti p) =
        (map (eval a) (hs_X p ! 0) = [0, 0, 0, 0] \<and> map (eval a) (hs_X p ! 50) = [1, pi, 0, 0])) \<and>
     (\<forall>a. feasible a (hs_opti p) \<longrightarrow>
        feasible (\<lambda>v r c. if v = 1 then u_max + 1 else a v r c) (hs_opti p)) \<and>
     (\<forall>a. feasible a (hs_opti p) \<longrightarrow>
        feasible (\<lambda>v r c. if v = 0 \<and> r = 0 \<and> 0 < c \<and> c < 50 then d_max + 1 else a v r c) (hs_opti p))"
proof -
  from cartpole_swingup_fields obtain p where p: "cartpole_swingup = Inr p"
    and X: "hs_X p = map (\<lambda>c. [Sym 0 0 c, Sym 0 1 c, Sym 0 2 c, Sym 0 3 c]) [0..<51]"
    and cs: "constraints (hs_opti p) =
       [Eq (hs_X p ! 0) [Const 0, Const 0, Const 0, Const 0],
        Eq (hs_X p ! 50) [Const 1, Const pi, Const 0, Const 0]]"
    by blast
  have iff: "feasible a (hs_opti p) =
        (map (eval a) (hs_X p ! 0) = [0, 0, 0, 0] \<and> map (eval a) (hs_X p ! 50) = [1, pi, 0, 0])" for a
    by (simp add: feasible_two [OF cs])
  have cols: "hs_X p ! 0 = [Sym 0 0 0, Sym 0 1 0, Sym 0 2 0, Sym 0 3 0]"
    "hs_X p ! 50 = [Sym 0 0 50, Sym 0 1 50, Sym 0 2 50, Sym 0 3 50]"
    by (simp_all add: X del: upt_Suc)
  have u: "feasible (\<lambda>v r c. if v = 1 then u_max + 1 else a v r c) (hs_opti p)"
    if "feasible a (hs_opti p)" for a
    using that by (simp add: iff cols)
  have d: "feasible (\<lambda>v r c. if v = 0 \<and> r = 0 \<and> 0 < c \<and> c < 50 then d_max + 1 else a v r c) (hs_opti p)"
    if "feasible a (hs_opti p)" for a
    using that by (simp add: iff cols)
  from p cs iff u d show ?thesis by blast
qed

theorem cartpole_swingup_unbounded_witness:
  "\<exists>p. cartpole_swingup = Inr p \<and> feasible overshoot (hs_opti p) \<and>
     feasible (\<lambda>v r c. if v = 1 then u_max + 1 else overshoot v r c) (hs_opti p) \<and>
     feasible (\<lambda>v r c. if v = 0 \<and> r = 0 \<and> 0 < c \<and> c < 50 then d_max + 1 else overshoot v r c) (hs_opti p)"
proof -
  from cartpole_swingup_unbounded obtain p where p: "cartpole_swingup = Inr p"
    and iff: "\<forall>a. feasible a (hs_opti p) =
        (map (eval a) (hs_X p ! 0) = [0, 0, 0, 0] \<and> map (eval a) (hs_X p ! 50) = [1, pi, 0, 0])"
    and u: "\<forall>a. feasible a (hs_opti p) \<longrightarrow>
        feasible (\<lambda>v r c. if v = 1 then u_max + 1 else a v r c) (hs_opti p)"
    and d: "\<forall>a. feasible a (hs_opti p) \<longrightarrow>
        feasible (\<lambda>v r c. if v = 0 \<and> r = 0 \<and> 0 < c \<and> c < 50 then d_max + 1 else a v r c) (hs_opti p)"
    by blast
  from cartpole_swingup_fields obtain q where q: "cartpole_swingup = Inr q"
    and Xq: "hs_X q = map (\<lambda>c. [Sym 0 0 c, Sym 0 1 c, Sym 0 2 c, Sym 0 3 c]) [0..<51]"
    by blast
  from p q have "Inr q = (Inr p :: error + hs_problem)" by (simp only:)
  then have "q = p" by (simp only: sum.inject)
  with Xq have X: "hs_X p = map (\<lambda>c. [Sym 0 0 c, Sym 0 1 c, Sym 0 2 c, Sym 0 3 c]) [0..<51]"
    by simp
  have "feasible overshoot (hs_opti p)"
    by (simp add: iff X overshoot_def del: upt_Suc)
  with p u d show ?thesis by blast
qed

end
